theory Spec2Isabelle
  imports Main "HOL-Library.AList"
begin

section \<open>Values, signatures and errors\<close>

text \<open>
  The engine of \<^verbatim>\<open>junkie/_async_junkie.py\<close> resolves names and callables into
  instances. Factories are caller-supplied callables; they are identified by a value of a
  finite type \<open>'f\<close> (a program has finitely many callables), and the facts the engine
  obtains from a callable by reflection are fields of the record \<open>world\<close> below.
\<close>

text \<open>
  Python values, as far as the engine tells them apart: strings (names and literals),
  collections, objects with an identity (a number that the call which creates the object
  draws from \<open>next_oid\<close>, so that two calls never return the same object), callables,
  awaitables (\<open>VAwaitable i r\<close>: the coroutine object that a call of an \<^verbatim>\<open>async def\<close>
  function returns; it yields \<open>r\<close> when it is awaited, once) and objects with the async
  enter/exit protocol (\<open>VAsyncCM i en ex\<close>: the enter step yields \<open>en\<close> or raises, the exit
  step returns or raises \<open>ex\<close>; no exit step swallows an exception).
\<close>

datatype 'f val =
    VNone
  | VStr string
  | VTuple "'f val list"
  | VSet "'f val list"
  | VDict "(string \<times> 'f val) list"
  | VObj nat string "'f val list" "(string \<times> 'f val) list"
  | VCallable 'f
  | VAwaitable nat "'f val"
  | VAsyncCM nat "string + 'f val" "string option"

text \<open>
  A parameter as \<^verbatim>\<open>inspect.signature\<close> reports it; \<open>None\<close> stands for
  \<^verbatim>\<open>inspect.Parameter.empty\<close>.
\<close>

datatype kind =
  POSITIONAL_ONLY | POSITIONAL_OR_KEYWORD | VAR_POSITIONAL | KEYWORD_ONLY | VAR_KEYWORD

record 'f parameter =
  p_name :: string
  p_kind :: kind
  p_default :: "'f val option"
  p_annotation :: "'f val option"

text \<open>
  Every \<^verbatim>\<open>JunkieError\<close> of the source has a message made of the rendered instantiation
  stack and one of six texts; the error keeps the two apart. \<open>Raised\<close> is an exception of
  caller-supplied code.
\<close>

datatype 'f detail =
    Unknown_type "'f val"
  | Unable_to_find string
  | Mapping_missing "string option" string
  | Dependency_cycle string
  | Unable_to_inspect string
  | Unable_to_find_for string string

datatype 'f error =
    JunkieError string "'f detail"
  | TypeError
  | IndexError
  | RuntimeError
  | Raised string

datatype event = Enter nat | Exit nat

text \<open>
  What does not change during a build: the registry \<^verbatim>\<open>self._context\<close>, the set
  \<^verbatim>\<open>BUILTINS\<close> and the function \<^verbatim>\<open>get_factory_name\<close> (both imported from a module
  that is not part of the source, hence parameters), and what a callable does when it is
  inspected and when it is called with positional and keyword arguments.
\<close>

record 'f world =
  junkie_context :: "string \<rightharpoonup> 'f val"
  BUILTINS :: "'f set"
  get_factory_name :: "'f \<Rightarrow> string"
  inspect_signature :: "'f \<Rightarrow> 'f parameter list option"
  apply_factory :: "'f \<Rightarrow> nat \<Rightarrow> 'f val list \<Rightarrow> (string \<times> 'f val) list \<Rightarrow> 'f error + 'f val"
  source_of :: "'f \<Rightarrow> (string \<times> nat) option"

text \<open>
  What a build changes: the dict objects and the exit-stack objects (both in a store,
  addressed by reference), the three references the engine holds, the coroutine objects
  that have been awaited, and the trace of enter and exit steps of the resources.
\<close>

record 'f state =
  dicts :: "nat \<Rightarrow> string \<rightharpoonup> 'f val"
  exit_stacks :: "nat \<Rightarrow> (nat \<times> string option) list"
  next_ref :: nat
  instances_by_name :: nat
  instances_by_name_stack :: "nat list"
  exit_stack :: nat
  next_oid :: nat
  awaited :: "nat set"
  events :: "event list"

section \<open>Primitive steps\<close>

text \<open>
  \<^verbatim>\<open>self._instances_by_name\<close> is a reference to a dict object; the dict objects live in
  the store \<open>dicts\<close>, so that the copy made by \<^verbatim>\<open>inject\<close> and the frame pushed on
  \<^verbatim>\<open>self._instances_by_name_stack\<close> alias as they do in the source.
\<close>

definition cache :: "'f state \<Rightarrow> string \<rightharpoonup> 'f val" where
  "cache st = dicts st (instances_by_name st)"

definition cache_store :: "string \<Rightarrow> 'f val \<Rightarrow> 'f state \<Rightarrow> 'f state" where
  "cache_store n v st =
     st\<lparr>dicts := (dicts st)(instances_by_name st := (cache st)(n \<mapsto> v))\<rparr>"

text \<open>
  \<^verbatim>\<open>await x\<close>: a coroutine object yields its result at its first await and raises
  \<^verbatim>\<open>RuntimeError\<close> (cannot reuse already awaited coroutine) at a later one; an object that
  is not awaitable raises \<^verbatim>\<open>TypeError\<close> (object can't be used in 'await' expression).
\<close>

fun await :: "'f val \<Rightarrow> 'f state \<Rightarrow> ('f error + 'f val) \<times> 'f state" where
  "await (VAwaitable i r) st =
     (if i \<in> awaited st then (Inl RuntimeError, st)
      else (Inr r, st\<lparr>awaited := insert i (awaited st)\<rparr>))"
| "await v st = (Inl TypeError, st)"

fun callable :: "'f val \<Rightarrow> bool" where
  "callable (VCallable f) = True"
| "callable v = False"

fun hasattr_aenter :: "'f val \<Rightarrow> bool" where
  "hasattr_aenter (VAsyncCM i en ex) = True"
| "hasattr_aenter v = False"

text \<open>
  \<^verbatim>\<open>AsyncExitStack.enter_async_context(cm)\<close>: await the enter step; when it returns,
  register the exit step on the stack and hand back what the enter step yielded. A failing
  enter step registers nothing. The enter step is caller-supplied code; here it yields its
  value or raises and does nothing to the engine. What happens when such code (or an
  awaited coroutine) runs a build on the same engine is written out, step by step, in the
  section on a build inside a build.
\<close>

fun enter_async_context :: "'f val \<Rightarrow> 'f state \<Rightarrow> ('f error + 'f val) \<times> 'f state" where
  "enter_async_context (VAsyncCM rid (Inr v) ex) st =
     (Inr v, st\<lparr>events := events st @ [Enter rid],
                exit_stacks := (exit_stacks st)
                  (exit_stack st := exit_stacks st (exit_stack st) @ [(rid, ex)])\<rparr>)"
| "enter_async_context (VAsyncCM rid (Inl msg) ex) st = (Inl (Raised msg), st)"
| "enter_async_context v st = (Inl TypeError, st)"

subsection \<open>The instantiation stack rendered as a trace\<close>

definition show_digit :: "nat \<Rightarrow> char" where
  "show_digit n = ''0123456789'' ! n"

fun show_nat :: "nat \<Rightarrow> string" where
  "show_nat n = (if n < 10 then [show_digit n] else show_nat (n div 10) @ [show_digit (n mod 10)])"

declare show_nat.simps [simp del]

text \<open>
  \<^verbatim>\<open>_get_source_info\<close>: \<open>source_of\<close> is the file and first line that \<^verbatim>\<open>inspect\<close>
  reports for the callable reached through its \<^verbatim>\<open>__wrapped__\<close> chain, \<open>None\<close> when
  \<^verbatim>\<open>inspect\<close> raises.
\<close>

definition get_source_info :: "'f world \<Rightarrow> 'f \<Rightarrow> string" where
  "get_source_info W f =
     (case source_of W f of
        Some (file, line) \<Rightarrow> [CHR 0x22] @ file @ '':'' @ show_nat line @ [CHR 0x22]
      | None \<Rightarrow> ''unknown source'')"

definition stack_entry :: "'f world \<Rightarrow> nat \<times> 'f \<Rightarrow> string" where
  "stack_entry W e =
     [CHR 0x0A] @ replicate (fst e) CHR '' '' @ ''-> '' @ get_factory_name W (snd e)
       @ ''() at '' @ get_source_info W (snd e)"

definition instantiation_stack_str :: "'f world \<Rightarrow> 'f list \<Rightarrow> string" where
  "instantiation_stack_str W stack =
     (if length stack = 0 then []
      else concat (map (stack_entry W) (enumerate 0 stack)) @ [CHR 0x0A])"

subsection \<open>Binding one resolved parameter\<close>

record 'f bindings =
  positional_params :: "(string \<times> 'f val) list"
  args :: "'f val"
  keyword_params :: "(string \<times> 'f val) list"
  kwargs :: "'f val"
  positional_params_finished :: bool

definition no_bindings :: "'f bindings" where
  "no_bindings = \<lparr>positional_params = [], args = VTuple [], keyword_params = [],
                   kwargs = VDict [], positional_params_finished = False\<rparr>"

text \<open>Lines 141 to 160: where the value of a resolved parameter goes, by its kind.\<close>

definition bind_parameter :: "'f parameter \<Rightarrow> 'f val \<Rightarrow> 'f bindings \<Rightarrow> 'f bindings" where
  "bind_parameter p v b =
     (case p_kind p of
        POSITIONAL_ONLY \<Rightarrow> b\<lparr>positional_params := AList.update (p_name p) v (positional_params b)\<rparr>
      | POSITIONAL_OR_KEYWORD \<Rightarrow>
          (if positional_params_finished b
           then b\<lparr>keyword_params := AList.update (p_name p) v (keyword_params b)\<rparr>
           else b\<lparr>positional_params := AList.update (p_name p) v (positional_params b)\<rparr>)
      | VAR_POSITIONAL \<Rightarrow> b\<lparr>args := v\<rparr>
      | KEYWORD_ONLY \<Rightarrow> b\<lparr>keyword_params := AList.update (p_name p) v (keyword_params b)\<rparr>
      | VAR_KEYWORD \<Rightarrow> b\<lparr>kwargs := v\<rparr>)"

text \<open>
  The call \<^verbatim>\<open>factory_function(*positional_params.values(), *args, **keyword_params, **kwargs)\<close>:
  \<^verbatim>\<open>*args\<close> iterates its operand, \<^verbatim>\<open>**kwargs\<close> needs a mapping, and a keyword given
  twice is a \<^verbatim>\<open>TypeError\<close>.
\<close>

fun unpack_args :: "'f val \<Rightarrow> 'f error + 'f val list" where
  "unpack_args (VTuple xs) = Inr xs"
| "unpack_args (VSet xs) = Inr xs"
| "unpack_args (VStr s) = Inr (map (\<lambda>c. VStr [c]) s)"
| "unpack_args (VDict kvs) = Inr (map (\<lambda>kv. VStr (fst kv)) kvs)"
| "unpack_args v = Inl TypeError"

fun unpack_kwargs :: "'f val \<Rightarrow> 'f error + (string \<times> 'f val) list" where
  "unpack_kwargs (VDict kvs) = Inr kvs"
| "unpack_kwargs v = Inl TypeError"

definition call_with ::
  "'f world \<Rightarrow> 'f \<Rightarrow> nat \<Rightarrow> 'f bindings \<Rightarrow> 'f error + 'f val" where
  "call_with W f oid b =
     (case unpack_args (args b) of
        Inl e \<Rightarrow> Inl e
      | Inr xs \<Rightarrow>
         (case unpack_kwargs (kwargs b) of
            Inl e \<Rightarrow> Inl e
          | Inr ks \<Rightarrow>
             if fst ` set (keyword_params b) \<inter> fst ` set ks \<noteq> {} then Inl TypeError
             else apply_factory W f oid (map snd (positional_params b) @ xs)
                    (keyword_params b @ ks)))"

section \<open>The resolver\<close>

text \<open>
  The five mutually recursive methods of \<^verbatim>\<open>AsyncJunkie\<close>. Every method returns the
  outcome (\<open>Inl\<close> the exception raised) together with the state it leaves behind.
  \<^verbatim>\<open>self._instantiation_stack.push_temporarily(factory)\<close> pushes, runs its block and pops on
  every exit path, so the stack a method sees is an argument: the block of line 74 runs
  with \<open>stack @ [f]\<close>, and the caller goes on with \<open>stack\<close>. \<^verbatim>\<open>_build_parameters\<close>
  hands back its four collections as one \<open>bindings\<close> record. Debug logging is left out.
\<close>

function
  build_by_instance_name ::
    "('f::finite) world \<Rightarrow> 'f list \<Rightarrow> string \<Rightarrow> 'f state \<Rightarrow> ('f error + 'f val) \<times> 'f state"
and build_by_factory_function ::
    "'f world \<Rightarrow> 'f list \<Rightarrow> 'f \<Rightarrow> string option \<Rightarrow> 'f state \<Rightarrow> ('f error + 'f val) \<times> 'f state"
and call_factory_function ::
    "'f world \<Rightarrow> 'f list \<Rightarrow> 'f \<Rightarrow> string option \<Rightarrow> 'f state \<Rightarrow> ('f error + 'f val) \<times> 'f state"
and build_parameters ::
    "'f world \<Rightarrow> 'f list \<Rightarrow> 'f \<Rightarrow> 'f state \<Rightarrow> ('f error + 'f bindings) \<times> 'f state"
and build_parameters_loop ::
    "'f world \<Rightarrow> 'f list \<Rightarrow> 'f \<Rightarrow> 'f parameter list \<Rightarrow> 'f bindings \<Rightarrow> 'f state
      \<Rightarrow> ('f error + 'f bindings) \<times> 'f state"
where
  "build_by_instance_name W stack instance_name st =
     (if instance_name \<in> dom (cache st) then
        await (the (cache st instance_name)) st
      else
        (case junkie_context W instance_name of
           Some (VCallable f) \<Rightarrow> build_by_factory_function W stack f (Some instance_name) st
         | Some v \<Rightarrow> (Inr v, st)
         | None \<Rightarrow>
             (Inl (JunkieError (instantiation_stack_str W stack) (Unable_to_find instance_name)),
              st)))"
| "build_by_factory_function W stack f instance_name st =
     (if f \<in> BUILTINS W then
        (Inl (JunkieError (instantiation_stack_str W stack)
                (Mapping_missing instance_name (get_factory_name W f))), st)
      else if f \<in> set stack then
        (Inl (JunkieError (instantiation_stack_str W stack)
                (Dependency_cycle (get_factory_name W f))), st)
      else
        (case call_factory_function W (stack @ [f]) f instance_name st of
           (Inl e, st1) \<Rightarrow> (Inl e, st1)
         | (Inr instance, st1) \<Rightarrow>
             (case instance_name of
                Some n \<Rightarrow> (Inr instance, cache_store n instance st1)
              | None \<Rightarrow> (Inr instance, st1))))"
| "call_factory_function W stack f instance_name st =
     (case build_parameters W stack f st of
        (Inl e, st1) \<Rightarrow> (Inl e, st1)
      | (Inr b, st1) \<Rightarrow>
          (case call_with W f (next_oid st1) b of
             Inl e \<Rightarrow> (Inl e, st1\<lparr>next_oid := Suc (next_oid st1)\<rparr>)
           | Inr instance \<Rightarrow>
               if hasattr_aenter instance
               then enter_async_context instance (st1\<lparr>next_oid := Suc (next_oid st1)\<rparr>)
               else (Inr instance, st1\<lparr>next_oid := Suc (next_oid st1)\<rparr>)))"
| "build_parameters W stack f st =
     (case inspect_signature W f of
        None \<Rightarrow>
          (Inl (JunkieError (instantiation_stack_str W stack)
                  (Unable_to_inspect (get_factory_name W f))), st)
      | Some ps \<Rightarrow> build_parameters_loop W stack f ps no_bindings st)"
| "build_parameters_loop W stack f [] b st = (Inr b, st)"
| "build_parameters_loop W stack f (p # ps) b st =
     (if p_name p \<in> dom (cache st) \<or> p_name p \<in> dom (junkie_context W) then
        (case build_by_instance_name W stack (p_name p) st of
           (Inl e, st1) \<Rightarrow> (Inl e, st1)
         | (Inr v, st1) \<Rightarrow> build_parameters_loop W stack f ps (bind_parameter p v b) st1)
      else if p_kind p = VAR_POSITIONAL then build_parameters_loop W stack f ps b st
      else if p_kind p = VAR_KEYWORD then build_parameters_loop W stack f ps b st
      else if p_default p \<noteq> None then
        build_parameters_loop W stack f ps (b\<lparr>positional_params_finished := True\<rparr>) st
      else
        (case p_annotation p of
           Some (VCallable g) \<Rightarrow>
             (case build_by_factory_function W stack g (Some (p_name p)) st of
                (Inl e, st1) \<Rightarrow> (Inl e, st1)
              | (Inr v, st1) \<Rightarrow> build_parameters_loop W stack f ps (bind_parameter p v b) st1)
         | _ \<Rightarrow>
             (Inl (JunkieError (instantiation_stack_str W stack)
                     (Unable_to_find_for (p_name p) (get_factory_name W f))), st)))"
  by pat_completeness auto

text \<open>
  Every nested factory call pushes a factory that is not on the stack yet, and there are
  finitely many factories: the number of factories off the stack decreases.
\<close>

termination
  apply (relation "measures
     [\<lambda>x. case x of
        Inl (Inl (W, stack, n, st)) \<Rightarrow> card (UNIV - set stack)
      | Inl (Inr (W, stack, f, n, st)) \<Rightarrow> card (UNIV - set stack)
      | Inr (Inl (W, stack, f, n, st)) \<Rightarrow> card (UNIV - set stack)
      | Inr (Inr (Inl (W, stack, f, st))) \<Rightarrow> card (UNIV - set stack)
      | Inr (Inr (Inr (W, stack, f, ps, b, st))) \<Rightarrow> card (UNIV - set stack),
      \<lambda>x. case x of
        Inl (Inl a) \<Rightarrow> 2
      | Inl (Inr a) \<Rightarrow> 1
      | Inr (Inl a) \<Rightarrow> 5
      | Inr (Inr (Inl a)) \<Rightarrow> 4
      | Inr (Inr (Inr a)) \<Rightarrow> 3,
      \<lambda>x. case x of
        Inr (Inr (Inr (W, stack, f, ps, b, st))) \<Rightarrow> length ps
      | _ \<Rightarrow> 0]")
                      apply simp_all
  apply (rule diff_Suc_less)
  apply (auto simp: card_gt_0_iff)
  done

declare build_by_instance_name.simps [simp del]
declare build_by_factory_function.simps [simp del]
declare call_factory_function.simps [simp del]
declare build_parameters.simps [simp del]
declare build_parameters_loop.simps [simp del]

definition build_instance ::
  "('f::finite) world \<Rightarrow> 'f list \<Rightarrow> 'f val \<Rightarrow> 'f state \<Rightarrow> ('f error + 'f val) \<times> 'f state" where
  "build_instance W stack name_or_factory st =
     (case name_or_factory of
        VStr n \<Rightarrow> build_by_instance_name W stack n st
      | VCallable f \<Rightarrow> build_by_factory_function W stack f None st
      | v \<Rightarrow> (Inl (JunkieError (instantiation_stack_str W stack) (Unknown_type v)), st))"

fun build_tuple_loop ::
  "('f::finite) world \<Rightarrow> 'f list \<Rightarrow> 'f val list \<Rightarrow> 'f val list \<Rightarrow> 'f state
     \<Rightarrow> ('f error + 'f val) \<times> 'f state" where
  "build_tuple_loop W stack [] instances st = (Inr (VTuple instances), st)"
| "build_tuple_loop W stack (t # ts) instances st =
     (case build_instance W stack t st of
        (Inl e, st1) \<Rightarrow> (Inl e, st1)
      | (Inr instance, st1) \<Rightarrow> build_tuple_loop W stack ts (instances @ [instance]) st1)"

definition build_tuple ::
  "('f::finite) world \<Rightarrow> 'f list \<Rightarrow> 'f val list \<Rightarrow> 'f state \<Rightarrow> ('f error + 'f val) \<times> 'f state" where
  "build_tuple W stack names_and_factories st =
     build_tuple_loop W stack names_and_factories [] st"

text \<open>
  \<open>builds_in_order W stack ts vs st\<close>: building the targets \<open>ts\<close> one after the other,
  each from the state the one before it left, returns the instances \<open>vs\<close>, one per target.
\<close>

fun builds_in_order ::
  "('f::finite) world \<Rightarrow> 'f list \<Rightarrow> 'f val list \<Rightarrow> 'f val list \<Rightarrow> 'f state \<Rightarrow> bool" where
  "builds_in_order W stack [] vs st = (vs = [])"
| "builds_in_order W stack (t # ts) vs st =
     (case vs of
        [] \<Rightarrow> False
      | v # vs' \<Rightarrow>
          (case build_instance W stack t st of
             (Inr x, st1) \<Rightarrow> x = v \<and> builds_in_order W stack ts vs' st1
           | (Inl e, st1) \<Rightarrow> False))"

section \<open>The build scope\<close>

text \<open>
  Leaving an \<^verbatim>\<open>AsyncExitStack\<close>: the registered exit steps run last-in first-out, each
  with the exception that is pending; an exit step that raises replaces the pending
  exception, and the remaining exit steps still run.
\<close>

fun aclose_loop ::
  "(nat \<times> string option) list \<Rightarrow> 'f error option \<Rightarrow> 'f state \<Rightarrow> 'f error option \<times> 'f state" where
  "aclose_loop [] pending st = (pending, st)"
| "aclose_loop (r # rs) pending st =
     aclose_loop rs (case snd r of Some msg \<Rightarrow> Some (Raised msg) | None \<Rightarrow> pending)
       (st\<lparr>events := events st @ [Exit (fst r)]\<rparr>)"

definition aclose :: "nat \<Rightarrow> 'f error option \<Rightarrow> 'f state \<Rightarrow> 'f error option \<times> 'f state" where
  "aclose e pending st =
     aclose_loop (rev (exit_stacks st e)) pending (st\<lparr>exit_stacks := (exit_stacks st)(e := [])\<rparr>)"

text \<open>
  \<^verbatim>\<open>inject\<close> is an async context manager written as a generator: the part up to the
  \<^verbatim>\<open>yield\<close> is its enter step, the part after it its exit step. The enter step hands
  back the built value and the exit stack it opened (the local of the generator that the
  exit step closes). When the build raises, the scopes unwind at once: the frame pushed on
  \<^verbatim>\<open>_instances_by_name_stack\<close> is popped, then the exit stack is closed.
\<close>

definition open_exit_stack :: "'f state \<Rightarrow> 'f state" where
  "open_exit_stack st =
     st\<lparr>exit_stacks := (exit_stacks st)(next_ref st := []), exit_stack := next_ref st,
        next_ref := Suc (next_ref st)\<rparr>"

definition seed_cache :: "'f state \<Rightarrow> 'f state" where
  "seed_cache st =
     (let d = next_ref st
      in st\<lparr>dicts := (dicts st)(d := dicts st (last (instances_by_name_stack st))),
            instances_by_name := d, next_ref := Suc d,
            instances_by_name_stack := instances_by_name_stack st @ [d]\<rparr>)"

definition pop_frame :: "'f state \<Rightarrow> 'f state" where
  "pop_frame st = st\<lparr>instances_by_name_stack := butlast (instances_by_name_stack st)\<rparr>"

text \<open>Lines 22 to 25: one target is built by itself, any other number as a tuple.\<close>

definition build_targets ::
  "('f::finite) world \<Rightarrow> 'f list \<Rightarrow> 'f val list \<Rightarrow> 'f state \<Rightarrow> ('f error + 'f val) \<times> 'f state" where
  "build_targets W stack names_and_factories st =
     (if length names_and_factories = 1
      then build_instance W stack (hd names_and_factories) st
      else build_tuple W stack names_and_factories st)"

definition inject_aenter ::
  "('f::finite) world \<Rightarrow> 'f list \<Rightarrow> 'f val list \<Rightarrow> 'f state
     \<Rightarrow> ('f error + 'f val \<times> nat) \<times> 'f state" where
  "inject_aenter W stack names_and_factories st =
     (let e = next_ref st;
          st1 = open_exit_stack st
      in if instances_by_name_stack st1 = [] then
           (case aclose e (Some IndexError) st1 of
              (Some err, st2) \<Rightarrow> (Inl err, st2)
            | (None, st2) \<Rightarrow> (Inl IndexError, st2))
         else
           (case build_targets W stack names_and_factories (seed_cache st1) of
              (Inr v, st4) \<Rightarrow> (Inr (v, e), st4)
            | (Inl err, st4) \<Rightarrow>
                (case aclose e (Some err) (pop_frame st4) of
                   (Some err', st5) \<Rightarrow> (Inl err', st5)
                 | (None, st5) \<Rightarrow> (Inl err, st5))))"

text \<open>
  The exit step: \<open>exc\<close> is the exception that the caller's block raised (\<open>None\<close> when it
  completed); the result is the exception that leaves the scope.
\<close>

definition inject_aexit :: "nat \<Rightarrow> 'f error option \<Rightarrow> 'f state \<Rightarrow> 'f error option \<times> 'f state" where
  "inject_aexit e exc st =
     (if instances_by_name_stack st = [] then aclose e (Some IndexError) st
      else aclose e exc (pop_frame st))"

text \<open>
  Modelled from the spec: the constructor of the parent class \<^verbatim>\<open>Junkie\<close>, which is not
  in the source. A new engine has one empty cache frame on its cache stack (the frame a
  top-level build copies), nothing acquired and nothing allocated.
\<close>

definition junkie_init :: "'f state" where
  "junkie_init = \<lparr>dicts = (\<lambda>r. Map.empty), exit_stacks = (\<lambda>r. []), next_ref = 1,
                   instances_by_name = 0, instances_by_name_stack = [0], exit_stack = 0,
                   next_oid = 0, awaited = {}, events = []\<rparr>"

section \<open>The requests of a build\<close>

text \<open>
  A request is one call of \<^verbatim>\<open>_build_by_factory_function\<close>: the instantiation stack at the
  call, the factory, the name and the state. \<open>loop_requests\<close> lists the requests that the
  loop of \<^verbatim>\<open>_build_parameters\<close> makes, in order: for a parameter resolved by name, the
  factory that the registry binds to the name when the name is not cached (lines 117, 51
  to 55); for a parameter built from its annotation, the annotation (line 133); and the
  requests for the parameters after it only when it was resolved, since an exception ends
  the loop. \<open>requests W r\<close> are the requests made directly while the request \<open>r\<close> is
  served, a builtin or stacked factory making none; the transitive closure of
  \<open>requested_by\<close> is what a factory requires, directly or through its resolved parameters.
\<close>

type_synonym 'f request = "'f list \<times> 'f \<times> string option \<times> 'f state"

definition answer :: "('f::finite) world \<Rightarrow> 'f request \<Rightarrow> ('f error + 'f val) \<times> 'f state" where
  "answer W r = (case r of (stack, f, instance_name, st) \<Rightarrow>
     build_by_factory_function W stack f instance_name st)"

fun loop_requests ::
  "('f::finite) world \<Rightarrow> 'f list \<Rightarrow> 'f parameter list \<Rightarrow> 'f state \<Rightarrow> 'f request list" where
  "loop_requests W stack [] st = []"
| "loop_requests W stack (p # ps) st =
     (if p_name p \<in> dom (cache st) \<or> p_name p \<in> dom (junkie_context W) then
        (if p_name p \<in> dom (cache st) then []
         else (case junkie_context W (p_name p) of
                 Some (VCallable g) \<Rightarrow> [(stack, g, Some (p_name p), st)]
               | _ \<Rightarrow> []))
        @ (case build_by_instance_name W stack (p_name p) st of
             (Inl e, st1) \<Rightarrow> []
           | (Inr v, st1) \<Rightarrow> loop_requests W stack ps st1)
      else if p_kind p = VAR_POSITIONAL then loop_requests W stack ps st
      else if p_kind p = VAR_KEYWORD then loop_requests W stack ps st
      else if p_default p \<noteq> None then loop_requests W stack ps st
      else
        (case p_annotation p of
           Some (VCallable g) \<Rightarrow>
             (stack, g, Some (p_name p), st)
             # (case build_by_factory_function W stack g (Some (p_name p)) st of
                  (Inl e, st1) \<Rightarrow> []
                | (Inr v, st1) \<Rightarrow> loop_requests W stack ps st1)
         | _ \<Rightarrow> []))"

definition requests :: "('f::finite) world \<Rightarrow> 'f request \<Rightarrow> 'f request list" where
  "requests W r = (case r of (stack, f, instance_name, st) \<Rightarrow>
     if f \<in> BUILTINS W \<or> f \<in> set stack then []
     else (case inspect_signature W f of
             None \<Rightarrow> []
           | Some ps \<Rightarrow> loop_requests W (stack @ [f]) ps st))"

definition requested_by :: "('f::finite) world \<Rightarrow> 'f request \<Rightarrow> 'f request \<Rightarrow> bool" where
  "requested_by W r r' \<longleftrightarrow> r' \<in> set (requests W r)"

section \<open>What a build may change\<close>

text \<open>
  The resolver only ever stores into the dict that \<^verbatim>\<open>self._instances_by_name\<close> refers to,
  appends to the exit stack that \<^verbatim>\<open>self._exit_stack\<close> refers to, and logs one enter
  event for every exit step it registers; it leaves the references themselves alone.
\<close>

definition build_step :: "'f state \<Rightarrow> 'f state \<Rightarrow> bool" where
  "build_step st st' \<longleftrightarrow>
     exit_stack st' = exit_stack st \<and>
     instances_by_name st' = instances_by_name st \<and>
     instances_by_name_stack st' = instances_by_name_stack st \<and>
     next_ref st' = next_ref st \<and>
     (\<forall>d. d \<noteq> instances_by_name st \<longrightarrow> dicts st' d = dicts st d) \<and>
     dom (cache st) \<subseteq> dom (cache st') \<and>
     (\<forall>e. e \<noteq> exit_stack st \<longrightarrow> exit_stacks st' e = exit_stacks st e) \<and>
     (\<exists>new. exit_stacks st' (exit_stack st) = exit_stacks st (exit_stack st) @ new \<and>
            events st' = events st @ map (\<lambda>r. Enter (fst r)) new)"

section \<open>An example program\<close>

text \<open>
  The factories of the repository's tests and of the scenarios of the specification:
  \<^verbatim>\<open>async_test\<close> of \<^verbatim>\<open>test_async_support.py\<close>, a plain class, an \<^verbatim>\<open>async def\<close>
  factory, the two factories of a mutual cycle through the registry, two factories of a
  cycle through the annotation of a later parameter, a factory with defaulted parameters, one
  with a catch-all parameter, one with an annotated parameter, a resource, a resource whose
  enter step raises, and a factory that needs three resources.
\<close>

datatype factory =
  Async_test | Class_A | Coro | Cyc_f | Cyc_g | Cyc_h | Cyc_k | Opt | Var | Dep | Res | Bad | Top

instantiation factory :: finite
begin

instance
proof
  have eq: "(UNIV :: factory set) =
      {Async_test, Class_A, Coro, Cyc_f, Cyc_g, Cyc_h, Cyc_k, Opt, Var, Dep, Res, Bad, Top}"
    using factory.exhaust by auto
  show "finite (UNIV :: factory set)"
    by (subst eq) simp
qed

end

definition param :: "string \<Rightarrow> kind \<Rightarrow> 'f val option \<Rightarrow> 'f val option \<Rightarrow> 'f parameter" where
  "param n k d a = \<lparr>p_name = n, p_kind = k, p_default = d, p_annotation = a\<rparr>"

fun ex_signature :: "factory \<Rightarrow> factory parameter list option" where
  "ex_signature Cyc_f = Some [param ''b'' POSITIONAL_OR_KEYWORD None None]"
| "ex_signature Cyc_g = Some [param ''a'' POSITIONAL_OR_KEYWORD None None]"
| "ex_signature Cyc_h =
     Some [param ''x'' POSITIONAL_OR_KEYWORD None None,
           param ''p'' POSITIONAL_OR_KEYWORD None (Some (VCallable Cyc_k))]"
| "ex_signature Cyc_k = Some [param ''q'' KEYWORD_ONLY None (Some (VCallable Cyc_h))]"
| "ex_signature Opt =
     Some [param ''a'' POSITIONAL_OR_KEYWORD (Some (VStr ''x'')) None,
           param ''b'' POSITIONAL_OR_KEYWORD (Some (VStr ''y'')) None]"
| "ex_signature Var = Some [param ''args'' VAR_POSITIONAL None None]"
| "ex_signature Dep = Some [param ''x'' POSITIONAL_OR_KEYWORD None (Some (VCallable Class_A))]"
| "ex_signature Top =
     Some [param ''r1'' POSITIONAL_OR_KEYWORD None None,
           param ''r2'' POSITIONAL_OR_KEYWORD None None,
           param ''bad'' POSITIONAL_OR_KEYWORD None None]"
| "ex_signature f = Some []"

fun ex_name :: "factory \<Rightarrow> string" where
  "ex_name Async_test = ''async_test''"
| "ex_name Class_A = ''A''"
| "ex_name Coro = ''coro''"
| "ex_name Cyc_f = ''f''"
| "ex_name Cyc_g = ''g''"
| "ex_name Cyc_h = ''h''"
| "ex_name Cyc_k = ''k''"
| "ex_name Opt = ''opt''"
| "ex_name Var = ''var''"
| "ex_name Dep = ''Dep''"
| "ex_name Res = ''res''"
| "ex_name Bad = ''bad''"
| "ex_name Top = ''Top''"

fun ex_apply ::
  "factory \<Rightarrow> nat \<Rightarrow> factory val list \<Rightarrow> (string \<times> factory val) list
     \<Rightarrow> factory error + factory val" where
  "ex_apply Async_test oid xs ks =
     Inr (VAsyncCM oid (Inr (VStr ''hello from async context manager'')) None)"
| "ex_apply Coro oid xs ks = Inr (VAwaitable oid (VStr ''done''))"
| "ex_apply Res oid xs ks = Inr (VAsyncCM oid (Inr (VObj oid ''res'' [] [])) None)"
| "ex_apply Bad oid xs ks = Inr (VAsyncCM oid (Inl ''enter failed'') None)"
| "ex_apply f oid xs ks = Inr (VObj oid (ex_name f) xs ks)"

fun ex_source :: "factory \<Rightarrow> (string \<times> nat) option" where
  "ex_source Cyc_f = Some (''app.py'', 3)"
| "ex_source Cyc_g = Some (''app.py'', 27)"
| "ex_source Class_A = None"
| "ex_source f = Some (''app.py'', 140)"

definition ex_world :: "(string \<rightharpoonup> factory val) \<Rightarrow> factory world" where
  "ex_world ctx =
     \<lparr>junkie_context = ctx, BUILTINS = {}, get_factory_name = ex_name,
      inspect_signature = ex_signature, apply_factory = ex_apply,
      source_of = ex_source\<rparr>"

section \<open>A build inside a build\<close>

text \<open>
  Caller-supplied code that the resolver awaits (the enter step of a resource at line 96, a
  cached coroutine at line 49) may itself run a build on the same engine. The interpreter
  then runs that build, from the entry of its scope to its exit, between two steps of the
  enclosing build, which is suspended in the await. \<open>resolve\<close> is one step of the enclosing
  build (one iteration of the loop of \<^verbatim>\<open>_build_tuple\<close>, line 31, nothing under
  construction), \<open>whole_build\<close> a build whose block completes.
\<close>

definition resolve :: "('f::finite) world \<Rightarrow> string \<Rightarrow> 'f state \<Rightarrow> 'f state" where
  "resolve W n st = snd (build_instance W [] (VStr n) st)"

definition whole_build :: "('f::finite) world \<Rightarrow> 'f val list \<Rightarrow> 'f state \<Rightarrow> 'f state" where
  "whole_build W names_and_factories st =
     (case inject_aenter W [] names_and_factories st of
        (Inr (v, e), st1) \<Rightarrow> snd (inject_aexit e None st1)
      | (Inl err, st1) \<Rightarrow> st1)"

text \<open>
  The run of
  \<^verbatim>\<open>async with junkie.inject("r1", "c", "c", "x", "r2")\<close>
  where \<^verbatim>\<open>r1\<close> and \<^verbatim>\<open>r2\<close> are bound to a resource factory, \<^verbatim>\<open>x\<close> and \<^verbatim>\<open>y\<close> to a
  plain class and \<^verbatim>\<open>c\<close> to an \<^verbatim>\<open>async def\<close> function whose body is
  \<^verbatim>\<open>async with junkie.inject("y"): pass\<close> followed by \<^verbatim>\<open>return "done"\<close>. The scope
  is opened (lines 18 to 21); \<^verbatim>\<open>r1\<close> is resolved and entered; the first resolution of
  \<^verbatim>\<open>c\<close> caches the coroutine; the second one awaits it (line 49), and its body runs the
  build of \<^verbatim>\<open>y\<close>; then the enclosing build resolves \<^verbatim>\<open>x\<close> and \<^verbatim>\<open>r2\<close>; at last its
  scope, whose exit stack is the object of reference 1, is left.
\<close>

definition reentrant_world :: "factory world" where
  "reentrant_world =
     ex_world [''r1'' \<mapsto> VCallable Res, ''c'' \<mapsto> VCallable Coro, ''y'' \<mapsto> VCallable Class_A,
               ''x'' \<mapsto> VCallable Class_A, ''r2'' \<mapsto> VCallable Res]"

definition run_opened :: "factory state" where
  "run_opened = seed_cache (open_exit_stack junkie_init)"

definition run_awaiting :: "factory state" where
  "run_awaiting =
     resolve reentrant_world ''c''
       (resolve reentrant_world ''c'' (resolve reentrant_world ''r1'' run_opened))"

definition run_nested :: "factory state" where
  "run_nested = whole_build reentrant_world [VStr ''y''] run_awaiting"

definition run_resumed :: "factory state" where
  "run_resumed = resolve reentrant_world ''r2'' (resolve reentrant_world ''x'' run_nested)"

definition run_exited :: "factory state" where
  "run_exited = snd (inject_aexit 1 None run_resumed)"

section \<open>Evaluation and frame lemmas\<close>

lemmas build_simps =
  build_by_instance_name.simps build_by_factory_function.simps call_factory_function.simps
  build_parameters.simps build_parameters_loop.simps build_instance_def build_tuple_def
  call_with_def cache_def cache_store_def no_bindings_def bind_parameter_def Let_def

lemmas scope_simps =
  inject_aenter_def inject_aexit_def aclose_def open_exit_stack_def seed_cache_def pop_frame_def
  build_targets_def

lemmas ex_simps = ex_world_def junkie_init_def param_def

lemmas run_simps =
  run_exited_def run_resumed_def run_nested_def run_awaiting_def run_opened_def
  reentrant_world_def resolve_def whole_build_def

lemmas trace_simps =
  instantiation_stack_str_def stack_entry_def get_source_info_def show_nat.simps show_digit_def
  enumerate_eq_zip

lemma build_step_refl: "build_step st st"
  by (simp add: build_step_def)

lemma build_step_trans:
  assumes ab: "build_step a b" and bc: "build_step b c"
  shows "build_step a c"
proof -
  from ab obtain n1 where n1: "exit_stacks b (exit_stack a) = exit_stacks a (exit_stack a) @ n1"
      "events b = events a @ map (\<lambda>r. Enter (fst r)) n1"
    unfolding build_step_def by blast
  from ab have eq: "exit_stack b = exit_stack a" unfolding build_step_def by blast
  from bc obtain n2 where n2: "exit_stacks c (exit_stack b) = exit_stacks b (exit_stack b) @ n2"
      "events c = events b @ map (\<lambda>r. Enter (fst r)) n2"
    unfolding build_step_def by blast
  have ex: "\<exists>new. exit_stacks c (exit_stack a) = exit_stacks a (exit_stack a) @ new \<and>
            events c = events a @ map (\<lambda>r. Enter (fst r)) new"
    using n1 n2 eq by (intro exI [of _ "n1 @ n2"]) simp
  from ab bc have dom: "dom (cache a) \<subseteq> dom (cache c)"
    unfolding build_step_def by blast
  from ab bc have rest: "exit_stack c = exit_stack a" "instances_by_name c = instances_by_name a"
      "instances_by_name_stack c = instances_by_name_stack a" "next_ref c = next_ref a"
      "\<forall>d. d \<noteq> instances_by_name a \<longrightarrow> dicts c d = dicts a d"
      "\<forall>e. e \<noteq> exit_stack a \<longrightarrow> exit_stacks c e = exit_stacks a e"
    unfolding build_step_def by simp_all
  from ex dom rest show ?thesis unfolding build_step_def by blast
qed

lemma build_step_cache_store: "build_step st (cache_store n v st)"
  by (auto simp: build_step_def cache_store_def cache_def)

lemma build_step_next_oid: "build_step st (st\<lparr>next_oid := k\<rparr>)"
  by (simp add: build_step_def cache_def)

lemma build_step_await: "build_step st (snd (await v st))"
  by (cases "(v, st)" rule: await.cases) (simp_all add: build_step_def cache_def)

lemma build_step_enter: "build_step st (snd (enter_async_context v st))"
proof (cases "(v, st)" rule: enter_async_context.cases)
  case (1 rid v' ex st0)
  then show ?thesis
    by (auto simp: build_step_def cache_def intro: exI [of _ "[(rid, ex)]"])
qed (simp_all add: build_step_refl)

lemma build_frame:
  fixes W :: "('f::finite) world"
  shows "build_step st (snd (build_by_instance_name W stack n st))"
    and "build_step st (snd (build_by_factory_function W stack f no st))"
    and "build_step st (snd (call_factory_function W stack f no st))"
    and "build_step st (snd (build_parameters W stack f st))"
    and "build_step st (snd (build_parameters_loop W stack f ps b st))"
proof (induction W stack n st and W stack f no st and W stack f no st and W stack f st
         and W stack f ps b st
       rule: build_by_instance_name_build_by_factory_function_call_factory_function_build_parameters_build_parameters_loop.induct)
  case (1 W stack instance_name st)
  then show ?case
    by (subst build_by_instance_name.simps)
       (auto simp: build_step_refl build_step_await split: sum.splits option.splits val.splits)
next
  case (2 W stack f instance_name st)
  then show ?case
    by (subst build_by_factory_function.simps)
       (auto simp: build_step_refl split: sum.splits option.splits prod.splits
             intro: build_step_trans [OF _ build_step_cache_store])
next
  case (3 W stack f instance_name st)
  have "build_step st1 (snd (enter_async_context v (st1\<lparr>next_oid := k\<rparr>)))" for st1 :: "'f state" and v k
    using build_step_trans [OF build_step_next_oid build_step_enter] .
  with 3 show ?case
    by (subst call_factory_function.simps)
       (auto simp: build_step_refl split: sum.splits option.splits prod.splits
             intro: build_step_trans [OF _ build_step_next_oid] build_step_trans)
next
  case (4 W stack f st)
  then show ?case
    by (subst build_parameters.simps) (auto simp: build_step_refl split: option.splits)
next
  case (5 W stack f b st)
  then show ?case
    by (subst build_parameters_loop.simps) (simp add: build_step_refl)
next
  case (6 W stack f p ps b st)
  note loop = build_parameters_loop.simps(2) [of W stack f p ps b st]
  show ?case
  proof (cases "p_name p \<in> dom (cache st) \<or> p_name p \<in> dom (junkie_context W)")
    case True
    obtain r st1 where r: "build_by_instance_name W stack (p_name p) st = (r, st1)"
      by force
    from "6.IH"(1) [OF True] r have s1: "build_step st st1" by simp
    show ?thesis
    proof (cases r)
      case (Inl e)
      with True r s1 show ?thesis by (simp add: loop)
    next
      case (Inr v)
      from "6.IH"(2) [OF True r [symmetric] Inr]
      have "build_step st1 (snd (build_parameters_loop W stack f ps (bind_parameter p v b) st1))" .
      with s1 have "build_step st (snd (build_parameters_loop W stack f ps (bind_parameter p v b) st1))"
        by (rule build_step_trans)
      with True r Inr show ?thesis by (simp add: loop)
    qed
  next
    case False
    show ?thesis
    proof (cases "p_kind p = VAR_POSITIONAL \<or> p_kind p = VAR_KEYWORD \<or> p_default p \<noteq> None")
      case True
      with False "6.IH"(3,4,5) show ?thesis by (auto simp: loop)
    next
      case simple: False
      show ?thesis
      proof (cases "\<exists>g. p_annotation p = Some (VCallable g)")
        case True
        then obtain g where g: "p_annotation p = Some (VCallable g)" by blast
        obtain r st1 where r: "build_by_factory_function W stack g (Some (p_name p)) st = (r, st1)"
          by force
        from "6.IH"(6) [OF False _ _ _ g] simple r have s1: "build_step st st1" by simp
        show ?thesis
        proof (cases r)
          case (Inl e)
          with False simple g r s1 show ?thesis by (simp add: loop)
        next
          case (Inr v)
          from "6.IH"(7) [OF False _ _ _ g _ r [symmetric] Inr] simple
          have "build_step st1 (snd (build_parameters_loop W stack f ps (bind_parameter p v b) st1))"
            by simp
          with s1 have "build_step st (snd (build_parameters_loop W stack f ps (bind_parameter p v b) st1))"
            by (rule build_step_trans)
          with False simple g r Inr show ?thesis by (simp add: loop)
        qed
      next
        case False
        with \<open>\<not> (p_name p \<in> dom (cache st) \<or> p_name p \<in> dom (junkie_context W))\<close> simple
        show ?thesis
          by (auto simp: loop build_step_refl split: option.splits val.splits)
      qed
    qed
  qed
qed

lemma loop_requests_stack:
  fixes W :: "('f::finite) world"
  assumes "r \<in> set (loop_requests W stack ps st)"
  shows "fst r = stack"
  using assms
  by (induction ps arbitrary: st)
     (auto split: if_splits option.splits val.splits prod.splits sum.splits)

lemma loop_requests_propagate:
  fixes W :: "('f::finite) world"
  assumes "r \<in> set (loop_requests W stack ps st)" and "answer W r = (Inl e, s)"
  shows "build_parameters_loop W stack f ps b st = (Inl e, s)"
  using assms
proof (induction ps arbitrary: b st)
  case Nil
  then show ?case by simp
next
  case (Cons p ps)
  note loop = build_parameters_loop.simps(2) [of W stack f p ps b st]
  show ?case
  proof (cases "p_name p \<in> dom (cache st) \<or> p_name p \<in> dom (junkie_context W)")
    case True
    obtain x st1 where x: "build_by_instance_name W stack (p_name p) st = (x, st1)" by force
    show ?thesis
    proof (cases "r \<in> set (case build_by_instance_name W stack (p_name p) st of
             (Inl e, st1) \<Rightarrow> []
           | (Inr v, st1) \<Rightarrow> loop_requests W stack ps st1)")
      case True
      with x obtain v where v: "x = Inr v" and r: "r \<in> set (loop_requests W stack ps st1)"
        by (cases x) auto
      from Cons.IH [OF r Cons.prems(2)] \<open>p_name p \<in> dom (cache st) \<or> p_name p \<in> dom (junkie_context W)\<close> x v
      show ?thesis by (simp add: loop)
    next
      case False
      with Cons.prems(1) True obtain g where nc: "p_name p \<notin> dom (cache st)"
          and g: "junkie_context W (p_name p) = Some (VCallable g)"
          and r: "r = (stack, g, Some (p_name p), st)"
        by (auto split: if_splits option.splits val.splits)
      from nc g have "build_by_instance_name W stack (p_name p) st =
          build_by_factory_function W stack g (Some (p_name p)) st"
        by (simp add: build_by_instance_name.simps)
      with Cons.prems(2) r have "build_by_instance_name W stack (p_name p) st = (Inl e, s)"
        by (simp add: answer_def)
      with True show ?thesis by (simp add: loop)
    qed
  next
    case False
    show ?thesis
    proof (cases "p_kind p = VAR_POSITIONAL \<or> p_kind p = VAR_KEYWORD \<or> p_default p \<noteq> None")
      case True
      with False Cons.prems(1) have "r \<in> set (loop_requests W stack ps st)"
        by (auto split: if_splits)
      from Cons.IH [OF this Cons.prems(2)] False True show ?thesis
        by (auto simp: loop)
    next
      case simple: False
      have "\<exists>g. p_annotation p = Some (VCallable g)"
      proof (cases "p_annotation p")
        case None
        with False simple Cons.prems(1) show ?thesis by auto
      next
        case (Some a)
        with False simple Cons.prems(1) show ?thesis by (cases a) auto
      qed
      then obtain g where g: "p_annotation p = Some (VCallable g)" by blast
      obtain x st1 where x: "build_by_factory_function W stack g (Some (p_name p)) st = (x, st1)"
        by force
      show ?thesis
      proof (cases "r = (stack, g, Some (p_name p), st)")
        case True
        with Cons.prems(2) have "build_by_factory_function W stack g (Some (p_name p)) st = (Inl e, s)"
          by (simp add: answer_def)
        with False simple g show ?thesis by (simp add: loop)
      next
        case ne: False
        with False simple g x Cons.prems(1) obtain v where v: "x = Inr v"
            and r: "r \<in> set (loop_requests W stack ps st1)"
          by (cases x) auto
        from Cons.IH [OF r Cons.prems(2)] False simple g x v show ?thesis
          by (simp add: loop)
      qed
    qed
  qed
qed

lemma requested_by_propagates:
  fixes W :: "('f::finite) world"
  assumes "requested_by W r r'" and "answer W r' = (Inl e, s)"
  shows "answer W r = (Inl e, s)"
proof -
  obtain stack f no st where r: "r = (stack, f, no, st)" by (cases r) auto
  from assms(1) r have f: "f \<notin> BUILTINS W" "f \<notin> set stack"
    by (auto simp: requested_by_def requests_def split: if_splits)
  with assms(1) r obtain ps where sig: "inspect_signature W f = Some ps"
      and r': "r' \<in> set (loop_requests W (stack @ [f]) ps st)"
    by (cases "inspect_signature W f") (auto simp: requested_by_def requests_def)
  from loop_requests_propagate [OF r' assms(2)]
  have "build_parameters_loop W (stack @ [f]) f ps no_bindings st = (Inl e, s)" .
  with sig have "build_parameters W (stack @ [f]) f st = (Inl e, s)"
    by (simp add: build_parameters.simps)
  then have "call_factory_function W (stack @ [f]) f no st = (Inl e, s)"
    by (simp add: call_factory_function.simps)
  with f r show ?thesis
    by (simp add: answer_def build_by_factory_function.simps)
qed

lemma reached_propagates:
  fixes W :: "('f::finite) world"
  assumes "tranclp (requested_by W) r r'" and "answer W r' = (Inl e, s)"
  shows "answer W r = (Inl e, s)"
  using assms
  by (induction rule: tranclp_induct) (blast intro: requested_by_propagates)+

lemma requested_by_stack:
  fixes W :: "('f::finite) world"
  assumes "requested_by W r r'"
  shows "fst r' = fst r @ [fst (snd r)] \<and> fst (snd r) \<notin> BUILTINS W \<and> fst (snd r) \<notin> set (fst r)"
  using assms
  by (cases r) (auto simp: requested_by_def requests_def dest: loop_requests_stack
        split: if_splits option.splits)

lemma reached_stack:
  fixes W :: "('f::finite) world"
  assumes "tranclp (requested_by W) r r'"
  shows "\<exists>cs. fst r' = fst r @ fst (snd r) # cs"
  using assms
proof (induction rule: tranclp_induct)
  case (base y)
  with requested_by_stack [of W r y] show ?case by simp
next
  case (step y z)
  then obtain cs where "fst y = fst r @ fst (snd r) # cs" by blast
  with requested_by_stack [OF step(2)] have "fst z = fst r @ fst (snd r) # (cs @ [fst (snd y)])"
    by simp
  then show ?case by blast
qed

lemma cycle_request:
  fixes W :: "('f::finite) world"
  assumes "t \<in> set stack" "t \<notin> BUILTINS W"
  shows "build_by_factory_function W stack t no st =
    (Inl (JunkieError (instantiation_stack_str W stack) (Dependency_cycle (get_factory_name W t))), st)"
  using assms by (simp add: build_by_factory_function.simps)

lemma build_tuple_loop_in_order:
  fixes W :: "('f::finite) world"
  assumes "build_tuple_loop W stack ts acc st = (Inr v, st')"
  shows "\<exists>vs. v = VTuple (acc @ vs) \<and> length vs = length ts \<and> builds_in_order W stack ts vs st"
  using assms
proof (induction ts arbitrary: acc st)
  case Nil
  then show ?case by auto
next
  case (Cons t ts)
  from Cons.prems obtain x st1 where
      b: "build_instance W stack t st = (Inr x, st1)" and
      r: "build_tuple_loop W stack ts (acc @ [x]) st1 = (Inr v, st')"
    by (auto split: prod.splits sum.splits)
  from Cons.IH [OF r] obtain vs where
      "v = VTuple ((acc @ [x]) @ vs)" "length vs = length ts" "builds_in_order W stack ts vs st1"
    by blast
  with b show ?case
    by (intro exI [of _ "x # vs"]) simp
qed





lemma aclose_loop_events:
  "events (snd (aclose_loop rs pending st)) = events st @ map (\<lambda>r. Exit (fst r)) rs \<and>
   exit_stacks (snd (aclose_loop rs pending st)) = exit_stacks st \<and>
   dicts (snd (aclose_loop rs pending st)) = dicts st \<and>
   instances_by_name (snd (aclose_loop rs pending st)) = instances_by_name st \<and>
   instances_by_name_stack (snd (aclose_loop rs pending st)) = instances_by_name_stack st"
  by (induction rs arbitrary: pending st) simp_all

lemma aclose_events:
  "events (snd (aclose e pending st)) =
     events st @ map (\<lambda>r. Exit (fst r)) (rev (exit_stacks st e))"
  "exit_stacks (snd (aclose e pending st)) = (exit_stacks st)(e := [])"
  "dicts (snd (aclose e pending st)) = dicts st"
  "instances_by_name (snd (aclose e pending st)) = instances_by_name st"
  "instances_by_name_stack (snd (aclose e pending st)) = instances_by_name_stack st"
  by (simp_all add: aclose_def aclose_loop_events)

lemma build_instance_frame:
  fixes W :: "('f::finite) world"
  shows "build_step st (snd (build_instance W stack t st))"
  by (cases t) (simp_all add: build_instance_def build_frame build_step_refl)

lemma build_tuple_loop_frame:
  fixes W :: "('f::finite) world"
  shows "build_step st (snd (build_tuple_loop W stack ts acc st))"
proof (induction ts arbitrary: acc st)
  case Nil
  then show ?case by (simp add: build_step_refl)
next
  case (Cons t ts)
  obtain r st1 where r: "build_instance W stack t st = (r, st1)" by force
  with build_instance_frame [of st W stack t] have s: "build_step st st1" by simp
  show ?case
  proof (cases r)
    case (Inl e)
    with r s show ?thesis by simp
  next
    case (Inr v)
    have "build_step st (snd (build_tuple_loop W stack ts (acc @ [v]) st1))"
      using s Cons.IH by (rule build_step_trans)
    with r Inr show ?thesis by simp
  qed
qed

lemma build_targets_frame:
  fixes W :: "('f::finite) world"
  shows "build_step st (snd (build_targets W stack ts st))"
  by (simp add: build_targets_def build_instance_frame build_tuple_def build_tuple_loop_frame)

lemma inject_build_acquired:
  fixes W :: "('f::finite) world"
  assumes "build_targets W stack ts (seed_cache (open_exit_stack st)) = (r, st4)"
  shows "events st4 = events st @ map Enter (map fst (exit_stacks st4 (next_ref st)))"
proof -
  let ?s0 = "seed_cache (open_exit_stack st)"
  from build_targets_frame [of ?s0 W stack ts] assms have "build_step ?s0 st4" by simp
  then obtain new where "exit_stacks st4 (exit_stack ?s0) = exit_stacks ?s0 (exit_stack ?s0) @ new"
      "events st4 = events ?s0 @ map (\<lambda>r. Enter (fst r)) new"
    unfolding build_step_def by blast
  then show ?thesis
    by (simp add: seed_cache_def open_exit_stack_def Let_def comp_def)
qed

lemma inject_success_events:
  fixes W :: "('f::finite) world"
  assumes ok: "inject_aenter W stack ts st = (Inr (v, e), st')"
  shows "events st' = events st @ map Enter (map fst (exit_stacks st' e))"
proof -
  obtain r st4 where b: "build_targets W stack ts (seed_cache (open_exit_stack st)) = (r, st4)"
    by force
  from ok b have "st' = st4 \<and> e = next_ref st"
    by (cases r; cases "instances_by_name_stack (open_exit_stack st) = []")
       (auto simp: inject_aenter_def Let_def split: prod.splits option.splits)
  with inject_build_acquired [OF b] show ?thesis by simp
qed

lemma inject_aexit_events:
  assumes "exit_stacks s e = rs"
  shows "events (snd (inject_aexit e exc s)) = events s @ map Exit (rev (map fst rs)) \<and>
         exit_stacks (snd (inject_aexit e exc s)) e = []"
  using assms by (simp add: inject_aexit_def aclose_events pop_frame_def rev_map comp_def)

lemma inject_failure_closed:
  fixes W :: "('f::finite) world"
  assumes bad: "inject_aenter W stack ts st = (Inl err, st')"
  shows "(instances_by_name_stack st = [] \<and>
            st' = snd (aclose (next_ref st) (Some IndexError) (open_exit_stack st))) \<or>
         (\<exists>err0 r st4. build_targets W stack ts (seed_cache (open_exit_stack st)) = (r, st4) \<and>
            st' = snd (aclose (next_ref st) (Some err0) (pop_frame st4)))"
proof (cases "instances_by_name_stack st = []")
  case True
  then have em: "instances_by_name_stack (open_exit_stack st) = []"
    by (simp add: open_exit_stack_def)
  have "inject_aenter W stack ts st =
      (case aclose (next_ref st) (Some IndexError) (open_exit_stack st) of
         (Some err, st2) \<Rightarrow> (Inl err, st2)
       | (None, st2) \<Rightarrow> (Inl IndexError, st2))"
    by (simp add: inject_aenter_def Let_def em)
  with bad have "st' = snd (aclose (next_ref st) (Some IndexError) (open_exit_stack st))"
    by (auto split: prod.splits option.splits)
  with True show ?thesis by blast
next
  case False
  then have ne: "instances_by_name_stack (open_exit_stack st) \<noteq> []"
    by (simp add: open_exit_stack_def)
  obtain r st4 where b: "build_targets W stack ts (seed_cache (open_exit_stack st)) = (r, st4)"
    by force
  from bad obtain err0 where r: "r = Inl err0"
    by (cases r) (simp_all add: inject_aenter_def Let_def ne b)
  have "inject_aenter W stack ts st =
      (case aclose (next_ref st) (Some err0) (pop_frame st4) of
         (Some err', st5) \<Rightarrow> (Inl err', st5)
       | (None, st5) \<Rightarrow> (Inl err0, st5))"
    by (simp add: inject_aenter_def Let_def ne b r)
  with bad have "st' = snd (aclose (next_ref st) (Some err0) (pop_frame st4))"
    by (auto split: prod.splits option.splits)
  with b show ?thesis by blast
qed

lemma inject_failure_events:
  fixes W :: "('f::finite) world"
  assumes bad: "inject_aenter W stack ts st = (Inl err, st')"
  shows "(\<exists>rs. events st' = events st @ map Enter rs @ map Exit (rev rs)) \<and>
         exit_stacks st' (next_ref st) = []"
  using inject_failure_closed [OF bad]
proof (elim disjE conjE exE)
  assume "st' = snd (aclose (next_ref st) (Some IndexError) (open_exit_stack st))"
  then have "events st' = events st @ map Enter [] @ map Exit (rev [])"
      and "exit_stacks st' (next_ref st) = []"
    by (simp_all add: aclose_events open_exit_stack_def)
  then show ?thesis by blast
next
  fix err0 r st4
  assume b: "build_targets W stack ts (seed_cache (open_exit_stack st)) = (r, st4)"
    and "st' = snd (aclose (next_ref st) (Some err0) (pop_frame st4))"
  then have "events st' =
      events st4 @ map Exit (rev (map fst (exit_stacks st4 (next_ref st))))"
      and closed: "exit_stacks st' (next_ref st) = []"
    by (simp_all add: aclose_events pop_frame_def rev_map comp_def)
  with inject_build_acquired [OF b]
  have "events st' = events st @ map Enter (map fst (exit_stacks st4 (next_ref st)))
      @ map Exit (rev (map fst (exit_stacks st4 (next_ref st))))"
    by simp
  with closed show ?thesis by blast
qed

lemma build_targets_frame_eq:
  fixes W :: "('f::finite) world"
  assumes "build_targets W stack ts st = (r, st')"
  shows "build_step st st'"
  using build_targets_frame [of st W stack ts] assms by simp

lemma build_step_stack:
  "build_step st st' \<Longrightarrow> instances_by_name_stack st' = instances_by_name_stack st"
  by (simp add: build_step_def)

lemma seed_cache_fresh:
  assumes "\<forall>d\<in>set (instances_by_name_stack st). d < next_ref st"
  shows "instances_by_name (seed_cache (open_exit_stack st)) \<notin> set (instances_by_name_stack st)"
  using assms by (auto simp: seed_cache_def open_exit_stack_def Let_def)

lemma nested_build_frames:
  fixes W :: "('f::finite) world"
  assumes fresh: "\<forall>d\<in>set (instances_by_name_stack st). d < next_ref st"
    and b: "build_targets W stack ts (seed_cache (open_exit_stack st)) = (r, st4)"
  shows "instances_by_name_stack (pop_frame st4) = instances_by_name_stack st \<and>
         (\<forall>d\<in>set (instances_by_name_stack st). dicts st4 d = dicts st d) \<and>
         instances_by_name st4 = instances_by_name (seed_cache (open_exit_stack st))"
proof -
  let ?s0 = "seed_cache (open_exit_stack st)"
  from build_targets_frame [of ?s0 W stack ts] b have step: "build_step ?s0 st4" by simp
  then have stack: "instances_by_name_stack st4 = instances_by_name_stack ?s0"
      and ref: "instances_by_name st4 = instances_by_name ?s0"
      and others: "\<forall>d. d \<noteq> instances_by_name ?s0 \<longrightarrow> dicts st4 d = dicts ?s0 d"
    unfolding build_step_def by blast+
  from stack have 1: "instances_by_name_stack (pop_frame st4) = instances_by_name_stack st"
    by (simp add: pop_frame_def seed_cache_def open_exit_stack_def Let_def)
  have 2: "dicts st4 d = dicts st d" if d: "d \<in> set (instances_by_name_stack st)" for d
  proof -
    from seed_cache_fresh [OF fresh] d have ne: "d \<noteq> instances_by_name ?s0" by blast
    with others have "dicts st4 d = dicts ?s0 d" by blast
    also from ne have "\<dots> = dicts st d"
      by (simp add: seed_cache_def open_exit_stack_def Let_def)
    finally show ?thesis .
  qed
  from 1 2 ref show ?thesis by blast
qed

text \<open>
  A build during which no other build runs on the engine: the events of the scope are the
  enter steps of the resources it acquired, in order, and leaving the scope (or a failing
  build) adds the exit steps of exactly those resources in reverse order.
\<close>

lemma scope_releases_in_reverse_order:
  fixes W :: "('f::finite) world"
  shows "(\<forall>v e st'. inject_aenter W stack ts st = (Inr (v, e), st') \<longrightarrow>
            events st' = events st @ map Enter (map fst (exit_stacks st' e)) \<and>
            (\<forall>exc s. exit_stacks s e = exit_stacks st' e \<longrightarrow>
               events (snd (inject_aexit e exc s)) =
                 events s @ map Exit (rev (map fst (exit_stacks st' e))) \<and>
               exit_stacks (snd (inject_aexit e exc s)) e = [])) \<and>
         (\<forall>err st'. inject_aenter W stack ts st = (Inl err, st') \<longrightarrow>
            (\<exists>rs. events st' =
                    events st @ map Enter rs @ map Exit (rev rs)) \<and>
            exit_stacks st' (next_ref st) = [])"
  using inject_success_events [of W stack ts st] inject_aexit_events
    inject_failure_events [of W stack ts st]
  by blast

text \<open>
  What a nested build does to the cache stack: it starts with a new dict that is a copy of
  the top frame, caches into the copy only, and when its scope is left (or it fails) the
  stack and the contents of every frame that was on it are what they were.
\<close>

lemma nested_build_leaves_frames_alone:
  fixes W :: "('f::finite) world"
  assumes "instances_by_name_stack st \<noteq> []"
    and "\<forall>d\<in>set (instances_by_name_stack st). d < next_ref st"
  shows "cache (seed_cache (open_exit_stack st)) = dicts st (last (instances_by_name_stack st)) \<and>
         instances_by_name (seed_cache (open_exit_stack st)) \<notin> set (instances_by_name_stack st) \<and>
         (\<forall>v e st'. inject_aenter W stack ts st = (Inr (v, e), st') \<longrightarrow>
            build_targets W stack ts (seed_cache (open_exit_stack st)) = (Inr v, st') \<and>
            (\<forall>d\<in>set (instances_by_name_stack st). dicts st' d = dicts st d) \<and>
            (\<forall>exc. instances_by_name_stack (snd (inject_aexit e exc st'))
                      = instances_by_name_stack st \<and>
                   (\<forall>d\<in>set (instances_by_name_stack st).
                      dicts (snd (inject_aexit e exc st')) d = dicts st d) \<and>
                   cache (seed_cache (open_exit_stack (snd (inject_aexit e exc st'))))
                      = dicts st (last (instances_by_name_stack st)))) \<and>
         (\<forall>err st'. inject_aenter W stack ts st = (Inl err, st') \<longrightarrow>
            instances_by_name_stack st' = instances_by_name_stack st \<and>
            (\<forall>d\<in>set (instances_by_name_stack st). dicts st' d = dicts st d))"
proof (intro conjI allI impI)
  show "cache (seed_cache (open_exit_stack st)) = dicts st (last (instances_by_name_stack st))"
    by (simp add: cache_def seed_cache_def open_exit_stack_def Let_def)
  show "instances_by_name (seed_cache (open_exit_stack st)) \<notin> set (instances_by_name_stack st)"
    using assms(2) by (rule seed_cache_fresh)
next
  fix v e st'
  assume ok: "inject_aenter W stack ts st = (Inr (v, e), st')"
  from assms(1) have ne: "instances_by_name_stack (open_exit_stack st) \<noteq> []"
    by (simp add: open_exit_stack_def)
  obtain r st4 where b: "build_targets W stack ts (seed_cache (open_exit_stack st)) = (r, st4)"
    by force
  from ok have res: "r = Inr v \<and> st4 = st'"
    by (cases r) (auto simp: inject_aenter_def Let_def ne b split: prod.splits option.splits)
  with b show "build_targets W stack ts (seed_cache (open_exit_stack st)) = (Inr v, st')"
    by simp
  note fr = nested_build_frames [OF assms(2) b]
  from fr res show in_scope: "\<forall>d\<in>set (instances_by_name_stack st). dicts st' d = dicts st d"
    by blast
  fix exc :: "'f error option"
  let ?s = "snd (inject_aexit e exc st')"
  from build_step_stack [OF build_targets_frame_eq [OF b]] res
  have "instances_by_name_stack st' \<noteq> []"
    by (simp add: seed_cache_def open_exit_stack_def Let_def)
  then have ex: "?s = snd (aclose e exc (pop_frame st'))"
    by (simp add: inject_aexit_def)
  from ex fr res show stack: "instances_by_name_stack ?s = instances_by_name_stack st"
    by (simp add: aclose_events pop_frame_def)
  from ex in_scope show dicts: "\<forall>d\<in>set (instances_by_name_stack st). dicts ?s d = dicts st d"
    by (simp add: aclose_events pop_frame_def)
  from assms(1) have "last (instances_by_name_stack st) \<in> set (instances_by_name_stack st)"
    by simp
  with stack dicts
  show "cache (seed_cache (open_exit_stack ?s)) = dicts st (last (instances_by_name_stack st))"
    by (simp add: cache_def seed_cache_def open_exit_stack_def Let_def)
next
  fix err st'
  assume bad: "inject_aenter W stack ts st = (Inl err, st')"
  from inject_failure_closed [OF bad] assms(1)
  obtain err0 r st4 where b: "build_targets W stack ts (seed_cache (open_exit_stack st)) = (r, st4)"
      and st': "st' = snd (aclose (next_ref st) (Some err0) (pop_frame st4))"
    by blast
  note fr = nested_build_frames [OF assms(2) b]
  from st' fr show "instances_by_name_stack st' = instances_by_name_stack st"
    by (simp add: aclose_events)
  from st' fr show "\<forall>d\<in>set (instances_by_name_stack st). dicts st' d = dicts st d"
    by (simp add: aclose_events pop_frame_def)
qed

text \<open>
  The first resolution of a name bound to a resource factory: the product is entered and
  what the enter step yields is returned and cached in its place.
\<close>

lemma uncached_resource_replaced_by_enter_value:
  fixes W :: "('f::finite) world"
  assumes "junkie_context W n = Some (VCallable f)"
    and "n \<notin> dom (cache st)"
    and "f \<notin> BUILTINS W"
    and "f \<notin> set stack"
    and "build_parameters W (stack @ [f]) f st = (Inr b, st1)"
    and "call_with W f (next_oid st1) b = Inr (VAsyncCM rid (Inr v) ex)"
  shows "fst (build_by_instance_name W stack n st) = Inr v \<and>
         cache (snd (build_by_instance_name W stack n st)) n = Some v \<and>
         fst (inject_aenter (ex_world [''text'' \<mapsto> VCallable Async_test]) [] [VStr ''text'']
                junkie_init)
           = Inr (VStr ''hello from async context manager'', 1)"
proof -
  have call: "call_factory_function W (stack @ [f]) f (Some n) st =
      enter_async_context (VAsyncCM rid (Inr v) ex) (st1\<lparr>next_oid := Suc (next_oid st1)\<rparr>)"
    using assms(5,6) by (simp add: call_factory_function.simps)
  have "build_by_instance_name W stack n st = build_by_factory_function W stack f (Some n) st"
    using assms(1,2) by (simp add: build_by_instance_name.simps)
  also have "fst \<dots> = Inr v"
    using assms(3,4) call by (simp add: build_by_factory_function.simps)
  finally have 1: "fst (build_by_instance_name W stack n st) = Inr v" .
  have 2: "cache (snd (build_by_instance_name W stack n st)) n = Some v"
    using assms(1,2,3,4) call
    by (simp add: build_by_instance_name.simps build_by_factory_function.simps
          cache_store_def cache_def)
  have 3: "fst (inject_aenter (ex_world [''text'' \<mapsto> VCallable Async_test]) [] [VStr ''text'']
                junkie_init)
           = Inr (VStr ''hello from async context manager'', 1)"
    by (simp add: build_simps scope_simps ex_simps)
  from 1 2 3 show ?thesis by blast
qed

text \<open>
  The steps of the run, without the build of \<^verbatim>\<open>y\<close> in between, are the build that
  \<^verbatim>\<open>inject\<close> runs, and leaving its scope releases both resources in reverse order.
\<close>

lemma run_without_nested_build:
  "resolve reentrant_world ''r2'' (resolve reentrant_world ''x'' run_awaiting)
     = snd (inject_aenter reentrant_world []
              [VStr ''r1'', VStr ''c'', VStr ''c'', VStr ''x'', VStr ''r2''] junkie_init) \<and>
   events (snd (inject_aexit 1 None
      (resolve reentrant_world ''r2'' (resolve reentrant_world ''x'' run_awaiting))))
     = [Enter 0, Enter 3, Exit 3, Exit 0]"
  by (simp add: run_simps build_simps scope_simps ex_simps)

text \<open>
  A later acquisition that fails: \<^verbatim>\<open>Top(r1, r2, bad)\<close> enters two resources, the enter
  step of the third raises, and the two are released in reverse order before the error
  leaves the scope.
\<close>

lemma failing_acquisition_releases_acquired:
  "inject_aenter
      (ex_world [''r1'' \<mapsto> VCallable Res, ''r2'' \<mapsto> VCallable Res, ''bad'' \<mapsto> VCallable Bad,
                 ''top'' \<mapsto> VCallable Top]) [] [VStr ''top''] junkie_init = (r, st) \<Longrightarrow>
   r = Inl (Raised ''enter failed'') \<and> events st = [Enter 0, Enter 1, Exit 1, Exit 0]"
  by (auto simp: build_simps scope_simps ex_simps)

section \<open>The claims\<close>

subsection \<open>C1: one instance per name and build\<close>

text \<open>
  C1. Once an instance is cached under a name, every later resolution of the name in the
  same build is to return that very instance. Line 49 awaits the cached instance instead:
  with the registry binding \<^verbatim>\<open>a\<close> to a plain class, the first resolution of \<^verbatim>\<open>a\<close>
  returns the new object and caches it, and the second resolution raises \<^verbatim>\<open>TypeError\<close>;
  with an \<^verbatim>\<open>async def\<close> factory the first resolution returns the awaitable and the
  second its result.
\<close>

theorem C1_cached_instance_is_awaited:
  "fst (build_by_instance_name (ex_world [''a'' \<mapsto> VCallable Class_A]) [] ''a'' junkie_init)
     = Inr (VObj 0 ''A'' [] []) \<and>
   cache (snd (build_by_instance_name (ex_world [''a'' \<mapsto> VCallable Class_A]) [] ''a''
                 junkie_init)) ''a''
     = Some (VObj 0 ''A'' [] []) \<and>
   fst (build_by_instance_name (ex_world [''a'' \<mapsto> VCallable Class_A]) [] ''a''
          (snd (build_by_instance_name (ex_world [''a'' \<mapsto> VCallable Class_A]) [] ''a''
                  junkie_init)))
     = Inl TypeError \<and>
   fst (inject_aenter (ex_world [''a'' \<mapsto> VCallable Class_A]) [] [VStr ''a'', VStr ''a'']
          junkie_init) = Inl TypeError \<and>
   fst (inject_aenter (ex_world [''c'' \<mapsto> VCallable Coro]) [] [VStr ''c'', VStr ''c'']
          junkie_init) = Inr (VTuple [VAwaitable 0 (VStr ''done''), VStr ''done''], 1)"
  by (simp add: build_simps scope_simps ex_simps)

subsection \<open>C2: a dependency cycle is detected\<close>

text \<open>
  C2. When the build of a factory \<open>f\<close> leads, directly or through any chain of requests
  made for its resolved parameters (by registry name or by annotation, for the first
  parameter or a later one), to a request for \<open>f\<close> itself, the build of \<open>f\<close> fails with the
  dependency-cycle error; the resolver is a total function, so no build recurses forever.
  The error carries the instantiation stack at the repeated request, which starts with the
  stack of the build followed by \<open>f\<close> and holds every factory under construction; it is
  rendered as one line per factory, in order, indented by its depth, with the factory's
  name and its source location.
\<close>

theorem C2_dependency_cycle:
  fixes W :: "('f::finite) world"
  assumes "tranclp (requested_by W) (stack, f, no, st) (stack', f, no', st')"
  shows "build_by_factory_function W stack f no st =
           (Inl (JunkieError (instantiation_stack_str W stack')
                   (Dependency_cycle (get_factory_name W f))), st') \<and>
         (\<exists>cs. stack' = stack @ f # cs) \<and>
         instantiation_stack_str W stack' =
           concat (map (\<lambda>(idx, g). [CHR 0x0A] @ replicate idx CHR '' '' @ ''-> ''
                          @ get_factory_name W g @ ''() at '' @ get_source_info W g)
                    (enumerate 0 stack')) @ [CHR 0x0A]"
proof -
  from reached_stack [OF assms] obtain cs where cs: "stack' = stack @ f # cs" by auto
  from assms obtain r where "requested_by W (stack, f, no, st) r"
    by (auto dest: tranclpD)
  from requested_by_stack [OF this] have nb: "f \<notin> BUILTINS W" by simp
  from cs have on: "f \<in> set stack'" by simp
  from cycle_request [OF on nb, of no' st']
  have "answer W (stack', f, no', st') =
      (Inl (JunkieError (instantiation_stack_str W stack')
              (Dependency_cycle (get_factory_name W f))), st')"
    by (simp add: answer_def)
  from reached_propagates [OF assms this]
  have 1: "build_by_factory_function W stack f no st =
           (Inl (JunkieError (instantiation_stack_str W stack')
                   (Dependency_cycle (get_factory_name W f))), st')"
    by (simp add: answer_def)
  from on have "stack' \<noteq> []" by auto
  moreover have "stack_entry W = (\<lambda>(idx, g). [CHR 0x0A] @ replicate idx CHR '' '' @ ''-> ''
                          @ get_factory_name W g @ ''() at '' @ get_source_info W g)"
    by (rule ext) (simp add: stack_entry_def split: prod.splits)
  ultimately have 3: "instantiation_stack_str W stack' =
           concat (map (\<lambda>(idx, g). [CHR 0x0A] @ replicate idx CHR '' '' @ ''-> ''
                          @ get_factory_name W g @ ''() at '' @ get_source_info W g)
                    (enumerate 0 stack')) @ [CHR 0x0A]"
    by (simp add: instantiation_stack_str_def)
  from 1 cs 3 show ?thesis by blast
qed


theorem C2_witness:
  "build_by_factory_function
      (ex_world [''a'' \<mapsto> VCallable Cyc_f, ''b'' \<mapsto> VCallable Cyc_g]) [] Cyc_f (Some ''a'')
      junkie_init =
     (Inl (JunkieError
             ([CHR 0x0A] @ ''-> f() at '' @ [CHR 0x22] @ ''app.py:3'' @ [CHR 0x22] @
              [CHR 0x0A] @ '' -> g() at '' @ [CHR 0x22] @ ''app.py:27'' @ [CHR 0x22] @
              [CHR 0x0A])
             (Dependency_cycle ''f'')), junkie_init) \<and>
   fst (inject_aenter
      (ex_world [''a'' \<mapsto> VCallable Cyc_f, ''b'' \<mapsto> VCallable Cyc_g]) [] [VStr ''a'']
      junkie_init) =
     Inl (JunkieError
             ([CHR 0x0A] @ ''-> f() at '' @ [CHR 0x22] @ ''app.py:3'' @ [CHR 0x22] @
              [CHR 0x0A] @ '' -> g() at '' @ [CHR 0x22] @ ''app.py:27'' @ [CHR 0x22] @
              [CHR 0x0A])
             (Dependency_cycle ''f'')) \<and>
   build_by_factory_function (ex_world [''x'' \<mapsto> VStr ''lit'']) [] Cyc_h None junkie_init =
     (Inl (JunkieError
             ([CHR 0x0A] @ ''-> h() at '' @ [CHR 0x22] @ ''app.py:140'' @ [CHR 0x22] @
              [CHR 0x0A] @ '' -> k() at '' @ [CHR 0x22] @ ''app.py:140'' @ [CHR 0x22] @
              [CHR 0x0A])
             (Dependency_cycle ''h'')), junkie_init)"
proof -
  let ?W = "ex_world [''a'' \<mapsto> VCallable Cyc_f, ''b'' \<mapsto> VCallable Cyc_g]"
  let ?V = "ex_world [''x'' \<mapsto> VStr ''lit'']"
  let ?st = "junkie_init :: factory state"
  have "requested_by ?W ([], Cyc_f, Some ''a'', ?st) ([Cyc_f], Cyc_g, Some ''b'', ?st)"
    by (simp add: requested_by_def requests_def build_simps ex_simps)
  moreover have "requested_by ?W ([Cyc_f], Cyc_g, Some ''b'', ?st)
      ([Cyc_f, Cyc_g], Cyc_f, Some ''a'', ?st)"
    by (simp add: requested_by_def requests_def build_simps ex_simps)
  ultimately have reach: "tranclp (requested_by ?W) ([], Cyc_f, Some ''a'', ?st)
      ([Cyc_f, Cyc_g], Cyc_f, Some ''a'', ?st)"
    by (rule tranclp.intros(2) [OF tranclp.intros(1)])
  have "requested_by ?V ([], Cyc_h, None, ?st) ([Cyc_h], Cyc_k, Some ''p'', ?st)"
    by (simp add: requested_by_def requests_def build_simps ex_simps)
  moreover have "requested_by ?V ([Cyc_h], Cyc_k, Some ''p'', ?st)
      ([Cyc_h, Cyc_k], Cyc_h, Some ''q'', ?st)"
    by (simp add: requested_by_def requests_def build_simps ex_simps)
  ultimately have reach': "tranclp (requested_by ?V) ([], Cyc_h, None, ?st)
      ([Cyc_h, Cyc_k], Cyc_h, Some ''q'', ?st)"
    by (rule tranclp.intros(2) [OF tranclp.intros(1)])
  have str: "instantiation_stack_str ?W [Cyc_f, Cyc_g] =
      [CHR 0x0A] @ ''-> f() at '' @ [CHR 0x22] @ ''app.py:3'' @ [CHR 0x22] @
      [CHR 0x0A] @ '' -> g() at '' @ [CHR 0x22] @ ''app.py:27'' @ [CHR 0x22] @ [CHR 0x0A]"
    by (simp add: trace_simps ex_simps)
  have str': "instantiation_stack_str ?V [Cyc_h, Cyc_k] =
      [CHR 0x0A] @ ''-> h() at '' @ [CHR 0x22] @ ''app.py:140'' @ [CHR 0x22] @
      [CHR 0x0A] @ '' -> k() at '' @ [CHR 0x22] @ ''app.py:140'' @ [CHR 0x22] @ [CHR 0x0A]"
    by (simp add: trace_simps ex_simps)
  from C2_dependency_cycle [OF reach]
  have 1: "build_by_factory_function ?W [] Cyc_f (Some ''a'') ?st =
      (Inl (JunkieError (instantiation_stack_str ?W [Cyc_f, Cyc_g])
              (Dependency_cycle (get_factory_name ?W Cyc_f))), ?st)"
    by blast
  from C2_dependency_cycle [OF reach']
  have 2: "build_by_factory_function ?V [] Cyc_h None ?st =
      (Inl (JunkieError (instantiation_stack_str ?V [Cyc_h, Cyc_k])
              (Dependency_cycle (get_factory_name ?V Cyc_h))), ?st)"
    by blast
  have 3: "fst (inject_aenter ?W [] [VStr ''a''] ?st) =
      Inl (JunkieError (instantiation_stack_str ?W [Cyc_f, Cyc_g]) (Dependency_cycle ''f''))"
    by (simp add: build_simps scope_simps ex_simps)
  from 1 2 3 str str' show ?thesis by (simp add: ex_simps)
qed

subsection \<open>C3: resolving a single name\<close>

text \<open>
  C3 says that a literal found in the registry is cached and returned. Lines 56 and 57
  return it as it is: after resolving \<^verbatim>\<open>prefix\<close>, bound to the string \<^verbatim>\<open>abc\<close>, the
  cache still has no entry for \<^verbatim>\<open>prefix\<close>.
\<close>

theorem C3_literal_is_not_cached:
  "fst (build_by_instance_name (ex_world [''prefix'' \<mapsto> VStr ''abc'']) [] ''prefix''
          junkie_init) = Inr (VStr ''abc'') \<and>
   cache (snd (build_by_instance_name (ex_world [''prefix'' \<mapsto> VStr ''abc'']) [] ''prefix''
                 junkie_init)) ''prefix'' = None"
  by (simp add: build_simps ex_simps)

text \<open>
  C3, amended. For a name that is not in the cache of the build: a literal bound to it in
  the registry is returned and nothing is stored; a factory bound to it is invoked under
  that name, and when the invocation returns an instance, the cache holds the instance under
  the name; a name that the registry does not bind either fails with the error
  \<^verbatim>\<open>Unable to find\<close>, which carries the rendered instantiation stack.
\<close>

theorem C3_resolution_of_an_uncached_name:
  fixes W :: "('f::finite) world"
  assumes "n \<notin> dom (cache st)"
  shows "(\<forall>v. junkie_context W n = Some v \<and> \<not> callable v \<longrightarrow>
            build_by_instance_name W stack n st = (Inr v, st)) \<and>
         (\<forall>f. junkie_context W n = Some (VCallable f) \<longrightarrow>
            build_by_instance_name W stack n st =
              build_by_factory_function W stack f (Some n) st \<and>
            (\<forall>v st'. build_by_factory_function W stack f (Some n) st = (Inr v, st') \<longrightarrow>
               cache st' n = Some v)) \<and>
         (junkie_context W n = None \<longrightarrow>
            build_by_instance_name W stack n st =
              (Inl (JunkieError (instantiation_stack_str W stack) (Unable_to_find n)), st))"
proof (intro conjI allI impI)
  fix v
  assume "junkie_context W n = Some v \<and> \<not> callable v"
  with assms show "build_by_instance_name W stack n st = (Inr v, st)"
    by (cases v) (simp_all add: build_by_instance_name.simps)
next
  fix f
  assume "junkie_context W n = Some (VCallable f)"
  with assms show "build_by_instance_name W stack n st =
      build_by_factory_function W stack f (Some n) st"
    by (simp add: build_by_instance_name.simps)
next
  fix f v st'
  assume "build_by_factory_function W stack f (Some n) st = (Inr v, st')"
  then show "cache st' n = Some v"
    by (auto simp: build_by_factory_function.simps cache_store_def cache_def
          split: if_splits prod.splits sum.splits)
next
  assume "junkie_context W n = None"
  with assms show "build_by_instance_name W stack n st =
      (Inl (JunkieError (instantiation_stack_str W stack) (Unable_to_find n)), st)"
    by (simp add: build_by_instance_name.simps)
qed

theorem C3_witness:
  "build_by_instance_name
      (ex_world [''prefix'' \<mapsto> VStr ''abc'', ''a'' \<mapsto> VCallable Class_A]) [] ''prefix''
      junkie_init = (Inr (VStr ''abc''), junkie_init) \<and>
   cache (snd (build_by_instance_name
      (ex_world [''prefix'' \<mapsto> VStr ''abc'', ''a'' \<mapsto> VCallable Class_A]) [] ''a''
      junkie_init)) ''a'' = Some (VObj 0 ''A'' [] []) \<and>
   build_by_instance_name
      (ex_world [''prefix'' \<mapsto> VStr ''abc'', ''a'' \<mapsto> VCallable Class_A]) [] ''missing''
      junkie_init = (Inl (JunkieError [] (Unable_to_find ''missing'')), junkie_init)"
proof -
  let ?W = "ex_world [''prefix'' \<mapsto> VStr ''abc'', ''a'' \<mapsto> VCallable Class_A]"
  let ?st = "junkie_init :: factory state"
  have c: "n \<notin> dom (cache ?st)" for n
    by (simp add: ex_simps cache_def)
  have lit: "junkie_context ?W ''prefix'' = Some (VStr ''abc'') \<and> \<not> callable (VStr ''abc'' :: factory val)"
    by (simp add: ex_simps)
  have fac: "junkie_context ?W ''a'' = Some (VCallable Class_A)"
    by (simp add: ex_simps)
  have built: "build_by_factory_function ?W [] Class_A (Some ''a'') ?st =
      (Inr (VObj 0 ''A'' [] []), cache_store ''a'' (VObj 0 ''A'' [] []) (?st\<lparr>next_oid := 1\<rparr>))"
    by (simp add: build_simps ex_simps)
  have none: "junkie_context ?W ''missing'' = None"
    by (simp add: ex_simps)
  have 1: "build_by_instance_name ?W [] ''prefix'' ?st = (Inr (VStr ''abc''), ?st)"
    using C3_resolution_of_an_uncached_name [OF c, of ?W "''prefix''" "[]"] lit by blast
  have 2: "cache (snd (build_by_instance_name ?W [] ''a'' ?st)) ''a'' = Some (VObj 0 ''A'' [] [])"
    using C3_resolution_of_an_uncached_name [OF c, of ?W "''a''" "[]"] fac built
    by (metis snd_conv)
  have 3: "build_by_instance_name ?W [] ''missing'' ?st =
      (Inl (JunkieError [] (Unable_to_find ''missing'')), ?st)"
    using C3_resolution_of_an_uncached_name [OF c, of ?W "''missing''" "[]"] none
    by (simp add: instantiation_stack_str_def)
  from 1 2 3 show ?thesis by blast
qed

subsection \<open>C4: resources are released in reverse order\<close>

text \<open>
  C4. Every resource entered during a build is to be released when the scope of the build is
  left, in reverse order. Line 18 makes \<^verbatim>\<open>self._exit_stack\<close> refer to the exit stack of the
  build that started last, and nothing makes it refer to the enclosing build's exit stack
  again when that build is over. In the run above the nested build of \<^verbatim>\<open>y\<close> leaves
  \<^verbatim>\<open>self._exit_stack\<close> at its own, closed exit stack (reference 3); the enclosing build
  then enters \<^verbatim>\<open>r2\<close> (resource 4) and line 96 registers its exit step there; when the
  enclosing scope is left, its exit stack (reference 1) releases \<^verbatim>\<open>r1\<close> (resource 0)
  only, and the exit step of \<^verbatim>\<open>r2\<close> never runs. Without the build of \<^verbatim>\<open>y\<close> in between
  both resources are released, in reverse order (lemma \<open>run_without_nested_build\<close>).
\<close>

theorem C4_resource_on_closed_exit_stack:
  "exit_stack run_awaiting = 1 \<and>
   exit_stacks run_awaiting 1 = [(0, None)] \<and>
   exit_stack run_nested = 3 \<and>
   exit_stacks run_nested 3 = [] \<and>
   exit_stacks run_resumed 1 = [(0, None)] \<and>
   exit_stacks run_resumed 3 = [(4, None)] \<and>
   events run_resumed = [Enter 0, Enter 4] \<and>
   events run_exited = [Enter 0, Enter 4, Exit 0] \<and>
   exit_stacks run_exited 3 = [(4, None)]"
  by (simp add: run_simps build_simps scope_simps ex_simps)

subsection \<open>C5: the shape of what a build yields\<close>

text \<open>
  C5 says that a set of names as the target yields a mapping from name to instance.
  \<^verbatim>\<open>inject\<close> takes its targets as separate arguments; a set passed as the one target is
  neither a string nor a callable, and \<^verbatim>\<open>_build_instance\<close> raises \<^verbatim>\<open>Unknown type\<close>.
\<close>

theorem C5_set_target_is_rejected:
  "fst (inject_aenter (ex_world [''prefix'' \<mapsto> VStr ''abc'', ''text'' \<mapsto> VStr ''abcdef''])
          [] [VSet [VStr ''text'', VStr ''prefix'']] junkie_init)
     = Inl (JunkieError [] (Unknown_type (VSet [VStr ''text'', VStr ''prefix''])))"
  by (simp add: build_simps scope_simps ex_simps instantiation_stack_str_def)

text \<open>
  C5, amended. \<^verbatim>\<open>inject\<close> with one target that is a name yields the instance built for
  that name, itself; with several targets (or none) it yields a tuple with one instance per
  target, in the order the targets were given, each built from the state its predecessor
  left; a set passed as the one target is rejected with the error \<^verbatim>\<open>Unknown type\<close>.
\<close>

theorem C5_inject_yields_instance_or_tuple:
  fixes W :: "('f::finite) world"
  assumes "instances_by_name_stack st \<noteq> []"
  shows "(\<forall>n v e st'. inject_aenter W stack [VStr n] st = (Inr (v, e), st') \<longrightarrow>
            build_by_instance_name W stack n (seed_cache (open_exit_stack st)) = (Inr v, st')) \<and>
         (\<forall>ts v e st'. length ts \<noteq> 1 \<and> inject_aenter W stack ts st = (Inr (v, e), st') \<longrightarrow>
            (\<exists>vs. v = VTuple vs \<and> length vs = length ts \<and>
                  builds_in_order W stack ts vs (seed_cache (open_exit_stack st)))) \<and>
         (\<forall>xs. fst (inject_aenter W stack [VSet xs] st) =
            Inl (JunkieError (instantiation_stack_str W stack) (Unknown_type (VSet xs))))"
proof (intro conjI allI impI)
  fix n v e st'
  assume "inject_aenter W stack [VStr n] st = (Inr (v, e), st')"
  then show "build_by_instance_name W stack n (seed_cache (open_exit_stack st)) = (Inr v, st')"
    by (auto simp: inject_aenter_def Let_def build_instance_def build_targets_def
          split: if_splits prod.splits sum.splits option.splits)
next
  fix ts v e st'
  assume h: "length ts \<noteq> 1 \<and> inject_aenter W stack ts st = (Inr (v, e), st')"
  then have "build_tuple_loop W stack ts [] (seed_cache (open_exit_stack st)) = (Inr v, st')"
    by (auto simp: inject_aenter_def Let_def build_tuple_def build_targets_def
          split: if_splits prod.splits sum.splits option.splits)
  from build_tuple_loop_in_order [OF this]
  show "\<exists>vs. v = VTuple vs \<and> length vs = length ts \<and>
                  builds_in_order W stack ts vs (seed_cache (open_exit_stack st))"
    by simp
next
  fix xs
  from assms show "fst (inject_aenter W stack [VSet xs] st) =
            Inl (JunkieError (instantiation_stack_str W stack) (Unknown_type (VSet xs)))"
    by (simp add: inject_aenter_def Let_def build_instance_def aclose_def open_exit_stack_def
          seed_cache_def pop_frame_def build_targets_def)
qed

theorem C5_witness:
  "inject_aenter (ex_world [''prefix'' \<mapsto> VStr ''abc'', ''a'' \<mapsto> VCallable Class_A]) []
       [VStr ''a'', VStr ''prefix''] junkie_init
     = (Inr (VTuple [VObj 0 ''A'' [] [], VStr ''abc''], 1),
        cache_store ''a'' (VObj 0 ''A'' [] [])
          (seed_cache (open_exit_stack junkie_init)\<lparr>next_oid := 1\<rparr>)) \<and>
   builds_in_order (ex_world [''prefix'' \<mapsto> VStr ''abc'', ''a'' \<mapsto> VCallable Class_A]) []
       [VStr ''a'', VStr ''prefix''] [VObj 0 ''A'' [] [], VStr ''abc'']
       (seed_cache (open_exit_stack junkie_init)) \<and>
   build_by_instance_name (ex_world [''prefix'' \<mapsto> VStr ''abc'', ''a'' \<mapsto> VCallable Class_A])
       [] ''prefix'' (seed_cache (open_exit_stack junkie_init))
     = (Inr (VStr ''abc''), seed_cache (open_exit_stack junkie_init)) \<and>
   fst (inject_aenter (ex_world [''prefix'' \<mapsto> VStr ''abc'', ''a'' \<mapsto> VCallable Class_A]) []
       [VSet [VStr ''a'']] junkie_init)
     = Inl (JunkieError [] (Unknown_type (VSet [VStr ''a''])))"
proof -
  let ?W = "ex_world [''prefix'' \<mapsto> VStr ''abc'', ''a'' \<mapsto> VCallable Class_A]"
  let ?st = "junkie_init :: factory state"
  let ?s0 = "seed_cache (open_exit_stack ?st)"
  have h: "instances_by_name_stack ?st \<noteq> []"
    by (simp add: ex_simps)
  note C5 = C5_inject_yields_instance_or_tuple [OF h, of ?W "[]"]
  have one: "inject_aenter ?W [] [VStr ''prefix''] ?st = (Inr (VStr ''abc'', 1), ?s0)"
    by (simp add: build_simps scope_simps ex_simps)
  have two: "length [VStr ''a'', VStr ''prefix'' :: factory val] \<noteq> 1 \<and>
      inject_aenter ?W [] [VStr ''a'', VStr ''prefix''] ?st
        = (Inr (VTuple [VObj 0 ''A'' [] [], VStr ''abc''], 1),
           cache_store ''a'' (VObj 0 ''A'' [] []) (?s0\<lparr>next_oid := 1\<rparr>))"
    by (simp add: build_simps scope_simps ex_simps)
  from C5 one have 1: "build_by_instance_name ?W [] ''prefix'' ?s0 = (Inr (VStr ''abc''), ?s0)"
    by blast
  from C5 two have "\<exists>vs. VTuple [VObj 0 ''A'' [] [], VStr ''abc''] = VTuple vs \<and>
      length vs = length [VStr ''a'', VStr ''prefix'' :: factory val] \<and>
      builds_in_order ?W [] [VStr ''a'', VStr ''prefix''] vs ?s0"
    by blast
  then have 2: "builds_in_order ?W [] [VStr ''a'', VStr ''prefix'']
      [VObj 0 ''A'' [] [], VStr ''abc''] ?s0"
    by auto
  from C5 have 3: "fst (inject_aenter ?W [] [VSet [VStr ''a'']] ?st) =
      Inl (JunkieError (instantiation_stack_str ?W []) (Unknown_type (VSet [VStr ''a''])))"
    by blast
  from 1 2 3 two show ?thesis
    by (simp add: instantiation_stack_str_def)
qed

subsection \<open>C6: the keyword phase\<close>




subsection \<open>C7: variadic collectors\<close>




subsection \<open>C8: parameters built from their annotation\<close>

text \<open>
  C8 says that a value built from a parameter's annotation is never stored in the cache.
  Line 133 invokes the annotation under the parameter's name, and line 78 stores the
  result under that name: building \<^verbatim>\<open>Dep(x: A)\<close> with an empty registry leaves the
  instance of \<^verbatim>\<open>A\<close> in the cache under \<^verbatim>\<open>x\<close>.
\<close>

theorem C8_annotation_build_is_cached:
  "fst (build_by_factory_function (ex_world Map.empty) [] Dep None junkie_init)
     = Inr (VObj 1 ''Dep'' [VObj 0 ''A'' [] []] []) \<and>
   cache (snd (build_by_factory_function (ex_world Map.empty) [] Dep None junkie_init)) ''x''
     = Some (VObj 0 ''A'' [] [])"
  by (simp add: build_simps ex_simps)

text \<open>
  C8, amended. For a parameter whose name is in neither the cache nor the registry, that
  is not a variadic collector, has no default and is annotated with a callable, the loop
  invokes the annotation as a nested factory under the parameter's name; when the
  invocation returns an instance, the instance is bound to the parameter and the cache
  holds it under the parameter's name.
\<close>

theorem C8_annotated_parameter:
  fixes W :: "('f::finite) world"
  assumes "p_name p \<notin> dom (cache st)"
    and "p_name p \<notin> dom (junkie_context W)"
    and "p_kind p \<noteq> VAR_POSITIONAL"
    and "p_kind p \<noteq> VAR_KEYWORD"
    and "p_default p = None"
    and "p_annotation p = Some (VCallable g)"
  shows "build_parameters_loop W stack f (p # ps) b st =
           (case build_by_factory_function W stack g (Some (p_name p)) st of
              (Inl e, st1) \<Rightarrow> (Inl e, st1)
            | (Inr v, st1) \<Rightarrow> build_parameters_loop W stack f ps (bind_parameter p v b) st1) \<and>
         (\<forall>v st1. build_by_factory_function W stack g (Some (p_name p)) st = (Inr v, st1) \<longrightarrow>
            cache st1 (p_name p) = Some v)"
proof (intro conjI allI impI)
  from assms show "build_parameters_loop W stack f (p # ps) b st =
           (case build_by_factory_function W stack g (Some (p_name p)) st of
              (Inl e, st1) \<Rightarrow> (Inl e, st1)
            | (Inr v, st1) \<Rightarrow> build_parameters_loop W stack f ps (bind_parameter p v b) st1)"
    by (simp add: build_parameters_loop.simps)
next
  fix v st1
  assume "build_by_factory_function W stack g (Some (p_name p)) st = (Inr v, st1)"
  then show "cache st1 (p_name p) = Some v"
    by (auto simp: build_by_factory_function.simps cache_store_def cache_def
          split: if_splits prod.splits sum.splits)
qed

theorem C8_witness:
  "build_parameters_loop (ex_world Map.empty) [Dep] Dep
      [param ''x'' POSITIONAL_OR_KEYWORD None (Some (VCallable Class_A))] no_bindings junkie_init
     = (Inr (no_bindings\<lparr>positional_params := [(''x'', VObj 0 ''A'' [] [])]\<rparr>),
        cache_store ''x'' (VObj 0 ''A'' [] []) (junkie_init\<lparr>next_oid := 1\<rparr>)) \<and>
   cache (cache_store ''x'' (VObj 0 ''A'' [] []) (junkie_init\<lparr>next_oid := 1\<rparr>)) ''x''
     = Some (VObj 0 ''A'' [] [] :: factory val)"
proof -
  let ?p = "param ''x'' POSITIONAL_OR_KEYWORD None (Some (VCallable Class_A)) :: factory parameter"
  let ?st = "junkie_init :: factory state"
  let ?W = "ex_world Map.empty"
  let ?st1 = "cache_store ''x'' (VObj 0 ''A'' [] []) (?st\<lparr>next_oid := 1\<rparr>)"
  have h1: "p_name ?p \<notin> dom (cache ?st)" by (simp add: ex_simps cache_def)
  have h2: "p_name ?p \<notin> dom (junkie_context ?W)" by (simp add: ex_simps)
  have h3: "p_kind ?p \<noteq> VAR_POSITIONAL" by (simp add: param_def)
  have h4: "p_kind ?p \<noteq> VAR_KEYWORD" by (simp add: param_def)
  have h5: "p_default ?p = None" by (simp add: param_def)
  have h6: "p_annotation ?p = Some (VCallable Class_A)" by (simp add: param_def)
  note C8 = C8_annotated_parameter [OF h1 h2 h3 h4 h5 h6, of "[Dep]" Dep "[]" no_bindings]
  have built: "build_by_factory_function ?W [Dep] Class_A (Some (p_name ?p)) ?st =
      (Inr (VObj 0 ''A'' [] []), ?st1)"
    by (simp add: build_simps ex_simps)
  from C8 built have 1: "build_parameters_loop ?W [Dep] Dep (?p # []) no_bindings ?st =
      build_parameters_loop ?W [Dep] Dep [] (bind_parameter ?p (VObj 0 ''A'' [] []) no_bindings) ?st1"
    by simp
  from C8 built have 2: "cache ?st1 (p_name ?p) = Some (VObj 0 ''A'' [] [])"
    by blast
  from 1 2 show ?thesis
    by (simp add: build_parameters_loop.simps param_def bind_parameter_def no_bindings_def)
qed

subsection \<open>C9: the cache of a nested build\<close>

text \<open>
  C9. After the scope of a nested build is left, the enclosing build is to go on with its own
  cache, unaffected. Line 21 pushes the copy with \<^verbatim>\<open>push_temporarily\<close>, which restores the
  cache stack (the enclosing build's dict, reference 2, is the top frame again and has no
  \<^verbatim>\<open>y\<close>), but line 19 has made \<^verbatim>\<open>self._instances_by_name\<close>, which every cache operation
  goes through (lines 48, 49, 78, 116), refer to the copy, and nothing makes it refer to
  the enclosing build's dict again. In the run above the enclosing build, resuming after
  the build of \<^verbatim>\<open>y\<close>, works on the copy (reference 4): it finds the nested build's
  instance of \<^verbatim>\<open>y\<close> in its cache, and the instance of \<^verbatim>\<open>x\<close> it builds is stored in the
  copy, not in its own dict, so that a build nested later, seeded from that dict, does not
  see it and builds \<^verbatim>\<open>x\<close> a second time.
\<close>

theorem C9_stale_cache_reference:
  "instances_by_name run_awaiting = 2 \<and>
   instances_by_name_stack run_awaiting = [0, 2] \<and>
   instances_by_name run_nested = 4 \<and>
   instances_by_name_stack run_nested = [0, 2] \<and>
   cache run_nested ''y'' = Some (VObj 2 ''A'' [] []) \<and>
   dicts run_nested 2 ''y'' = None \<and>
   fst (build_instance reentrant_world [] (VStr ''x'') run_nested) = Inr (VObj 3 ''A'' [] []) \<and>
   dicts run_resumed 2 ''x'' = None \<and>
   dicts run_resumed 4 ''x'' = Some (VObj 3 ''A'' [] []) \<and>
   fst (inject_aenter reentrant_world [] [VStr ''x''] run_resumed)
     = Inr (VObj 5 ''A'' [] [], 5)"
  by (simp add: run_simps build_simps scope_simps ex_simps)

subsection \<open>C10: a scoped resource is replaced by what its enter step yields\<close>

text \<open>
  C10. Building a name that the registry binds to a resource factory is to yield what the
  enter step of the resource yields. With the registry of \<^verbatim>\<open>test_async_support.py\<close> a
  build of \<^verbatim>\<open>text\<close> yields the string and caches it; a second resolution of \<^verbatim>\<open>text\<close>
  in the same build, or a build of \<^verbatim>\<open>text\<close> nested in the block of the first (its cache
  is seeded with the string), takes the path of line 49, awaits the string and raises
  \<^verbatim>\<open>TypeError\<close> instead of yielding it.
\<close>

theorem C10_cached_enter_value_is_awaited:
  "fst (inject_aenter (ex_world [''text'' \<mapsto> VCallable Async_test]) [] [VStr ''text'']
          junkie_init)
     = Inr (VStr ''hello from async context manager'', 1) \<and>
   cache (snd (inject_aenter (ex_world [''text'' \<mapsto> VCallable Async_test]) [] [VStr ''text'']
                 junkie_init)) ''text''
     = Some (VStr ''hello from async context manager'') \<and>
   fst (inject_aenter (ex_world [''text'' \<mapsto> VCallable Async_test]) []
          [VStr ''text'', VStr ''text''] junkie_init)
     = Inl TypeError \<and>
   fst (inject_aenter (ex_world [''text'' \<mapsto> VCallable Async_test]) [] [VStr ''text'']
          (snd (inject_aenter (ex_world [''text'' \<mapsto> VCallable Async_test]) [] [VStr ''text'']
                  junkie_init)))
     = Inl TypeError"
  by (simp add: build_simps scope_simps ex_simps)

end
